theory Spec2Isabelle
  imports Complex_Main "HOL-Library.Word"
begin

unbundle bit_operations_syntax

section \<open>raygui: the immediate-mode GUI core of \<^verbatim>\<open>src/raygui.h\<close>\<close>

text \<open>
  Conventions of the embedding.
  \<^item> A C \<^verbatim>\<open>float\<close> is a real number: comparisons and arithmetic are exact and rounding
    is outside the model. A cast \<^verbatim>\<open>(int)f\<close> truncates towards zero. Where a function
    is called with any \<^verbatim>\<open>float\<close> (the argument of \<^verbatim>\<open>GuiSetAlpha\<close>) or divides by a
    difference that can be zero and goes on (\<^verbatim>\<open>GuiSliderPro\<close>), the value is a \<open>c_float\<close>:
    a real number, an infinity or NaN, with the comparisons and the arithmetic of IEEE 754.
    Elsewhere a division by zero is the result \<open>None\<close>.
  \<^item> A C \<^verbatim>\<open>int\<close> used for arithmetic or as an index is an \<open>int\<close>; signed overflow
    (undefined in C) is outside the model.
  \<^item> A style value is the 32-bit pattern stored in \<^verbatim>\<open>unsigned int guiStyle[]\<close>:
    \<^verbatim>\<open>GuiSetStyle\<close> converts its \<^verbatim>\<open>int\<close> to it and \<^verbatim>\<open>GuiGetStyle\<close> converts back, both
    keeping the bits; \<open>sint\<close> reads it as the \<^verbatim>\<open>int\<close> the callers compute with.
  \<^item> The file-level \<^verbatim>\<open>static\<close> variables are the fields of the record \<open>gui\<close>, passed
    in and returned.
  \<^item> An access outside an array (undefined in C) is the result \<open>None\<close>.
\<close>

subsection \<open>Types\<close>

record Vector2 =
  v2_x :: real
  v2_y :: real

record Vector3 =
  v3_x :: real
  v3_y :: real
  v3_z :: real

record Rectangle =
  rec_x :: real
  rec_y :: real
  rec_width :: real
  rec_height :: real

text \<open>A \<^verbatim>\<open>float\<close> that may be an infinity or NaN. The comparisons \<^verbatim>\<open><\<close> and \<^verbatim>\<open>==\<close> are false
  as soon as one side is NaN (\<^verbatim>\<open>a > b\<close> is \<open>f_less b a\<close>); a sum, product or quotient with a NaN
  is NaN, and so are \<open>\<infinity> - \<infinity>\<close>, \<open>0 * \<infinity>\<close>, \<open>\<infinity> / \<infinity>\<close> and \<open>0 / 0\<close>. A zero is the positive
  zero, so a quotient by zero has the sign of the numerator.\<close>

datatype c_float = Num real | PInf | NInf | NaN

fun f_less :: "c_float \<Rightarrow> c_float \<Rightarrow> bool" where
  "f_less NaN b = False"
| "f_less a NaN = False"
| "f_less (Num a) (Num b) = (a < b)"
| "f_less (Num a) PInf = True"
| "f_less (Num a) NInf = False"
| "f_less PInf b = False"
| "f_less NInf NInf = False"
| "f_less NInf b = True"


fun f_add :: "c_float \<Rightarrow> c_float \<Rightarrow> c_float" where
  "f_add NaN b = NaN"
| "f_add a NaN = NaN"
| "f_add (Num a) (Num b) = Num (a + b)"
| "f_add PInf NInf = NaN"
| "f_add NInf PInf = NaN"
| "f_add PInf b = PInf"
| "f_add NInf b = NInf"
| "f_add (Num a) b = b"

text \<open>An infinity with the sign of a real number that is not zero.\<close>

definition f_inf :: "real \<Rightarrow> c_float" where
  "f_inf a = (if 0 < a then PInf else NInf)"

fun f_sign :: "c_float \<Rightarrow> real" where
  "f_sign (Num a) = sgn a"
| "f_sign PInf = 1"
| "f_sign NInf = - 1"
| "f_sign NaN = 0"

fun f_mul :: "c_float \<Rightarrow> c_float \<Rightarrow> c_float" where
  "f_mul NaN b = NaN"
| "f_mul a NaN = NaN"
| "f_mul (Num a) (Num b) = Num (a * b)"
| "f_mul a b = (if f_sign a * f_sign b = 0 then NaN else f_inf (f_sign a * f_sign b))"

fun f_div :: "c_float \<Rightarrow> c_float \<Rightarrow> c_float" where
  "f_div NaN b = NaN"
| "f_div a NaN = NaN"
| "f_div (Num a) (Num b) = (if b \<noteq> 0 then Num (a / b) else if a = 0 then NaN else f_inf a)"
| "f_div (Num a) b = Num 0"
| "f_div a (Num b) = (if 0 \<le> b then a else f_inf (- f_sign a))"
| "f_div a b = NaN"

text \<open>\<^verbatim>\<open>GuiState\<close>. \<^verbatim>\<open>GuiSetState\<close> casts any \<^verbatim>\<open>int\<close> to the enum, so the state is kept
  as the integer it is.\<close>

abbreviation (input) STATE_NORMAL :: int where "STATE_NORMAL \<equiv> 0"
abbreviation (input) STATE_FOCUSED :: int where "STATE_FOCUSED \<equiv> 1"
abbreviation (input) STATE_PRESSED :: int where "STATE_PRESSED \<equiv> 2"
abbreviation (input) STATE_DISABLED :: int where "STATE_DISABLED \<equiv> 3"

text \<open>\<^verbatim>\<open>GuiControl\<close>\<close>

abbreviation (input) DEFAULT :: int where "DEFAULT \<equiv> 0"
abbreviation (input) LABEL :: int where "LABEL \<equiv> 1"
abbreviation (input) BUTTON :: int where "BUTTON \<equiv> 2"
abbreviation (input) TOGGLE :: int where "TOGGLE \<equiv> 3"
abbreviation (input) SLIDER :: int where "SLIDER \<equiv> 4"
abbreviation (input) PROGRESSBAR :: int where "PROGRESSBAR \<equiv> 5"
abbreviation (input) CHECKBOX :: int where "CHECKBOX \<equiv> 6"
abbreviation (input) COMBOBOX :: int where "COMBOBOX \<equiv> 7"
abbreviation (input) DROPDOWNBOX :: int where "DROPDOWNBOX \<equiv> 8"
abbreviation (input) TEXTBOX :: int where "TEXTBOX \<equiv> 9"
abbreviation (input) VALUEBOX :: int where "VALUEBOX \<equiv> 10"
abbreviation (input) SPINNER :: int where "SPINNER \<equiv> 11"
abbreviation (input) LISTVIEW :: int where "LISTVIEW \<equiv> 12"
abbreviation (input) COLORPICKER :: int where "COLORPICKER \<equiv> 13"
abbreviation (input) SCROLLBAR :: int where "SCROLLBAR \<equiv> 14"
abbreviation (input) STATUSBAR :: int where "STATUSBAR \<equiv> 15"

text \<open>\<^verbatim>\<open>GuiControlProperty\<close>, the base properties\<close>

abbreviation (input) BORDER_COLOR_NORMAL :: int where "BORDER_COLOR_NORMAL \<equiv> 0"
abbreviation (input) BASE_COLOR_NORMAL :: int where "BASE_COLOR_NORMAL \<equiv> 1"
abbreviation (input) TEXT_COLOR_NORMAL :: int where "TEXT_COLOR_NORMAL \<equiv> 2"
abbreviation (input) BORDER_COLOR_FOCUSED :: int where "BORDER_COLOR_FOCUSED \<equiv> 3"
abbreviation (input) BASE_COLOR_FOCUSED :: int where "BASE_COLOR_FOCUSED \<equiv> 4"
abbreviation (input) TEXT_COLOR_FOCUSED :: int where "TEXT_COLOR_FOCUSED \<equiv> 5"
abbreviation (input) BORDER_COLOR_PRESSED :: int where "BORDER_COLOR_PRESSED \<equiv> 6"
abbreviation (input) BASE_COLOR_PRESSED :: int where "BASE_COLOR_PRESSED \<equiv> 7"
abbreviation (input) TEXT_COLOR_PRESSED :: int where "TEXT_COLOR_PRESSED \<equiv> 8"
abbreviation (input) BORDER_COLOR_DISABLED :: int where "BORDER_COLOR_DISABLED \<equiv> 9"
abbreviation (input) BASE_COLOR_DISABLED :: int where "BASE_COLOR_DISABLED \<equiv> 10"
abbreviation (input) TEXT_COLOR_DISABLED :: int where "TEXT_COLOR_DISABLED \<equiv> 11"
abbreviation (input) BORDER_WIDTH :: int where "BORDER_WIDTH \<equiv> 12"
abbreviation (input) TEXT_PADDING :: int where "TEXT_PADDING \<equiv> 13"
abbreviation (input) TEXT_ALIGNMENT :: int where "TEXT_ALIGNMENT \<equiv> 14"

text \<open>\<^verbatim>\<open>GuiDefaultProperty\<close> and the extended properties of the controls\<close>

abbreviation (input) TEXT_SIZE :: int where "TEXT_SIZE \<equiv> 16"
abbreviation (input) TEXT_SPACING :: int where "TEXT_SPACING \<equiv> 17"
abbreviation (input) LINE_COLOR :: int where "LINE_COLOR \<equiv> 18"
abbreviation (input) BACKGROUND_COLOR :: int where "BACKGROUND_COLOR \<equiv> 19"
abbreviation (input) TEXT_LINE_SPACING :: int where "TEXT_LINE_SPACING \<equiv> 20"
abbreviation (input) TEXT_ALIGNMENT_VERTICAL :: int where "TEXT_ALIGNMENT_VERTICAL \<equiv> 21"
abbreviation (input) TEXT_WRAP_MODE :: int where "TEXT_WRAP_MODE \<equiv> 22"

abbreviation (input) GROUP_PADDING :: int where "GROUP_PADDING \<equiv> 16"
abbreviation (input) SLIDER_WIDTH :: int where "SLIDER_WIDTH \<equiv> 16"
abbreviation (input) SLIDER_PADDING :: int where "SLIDER_PADDING \<equiv> 17"
abbreviation (input) PROGRESS_PADDING :: int where "PROGRESS_PADDING \<equiv> 16"
abbreviation (input) ARROWS_SIZE :: int where "ARROWS_SIZE \<equiv> 16"
abbreviation (input) ARROWS_VISIBLE :: int where "ARROWS_VISIBLE \<equiv> 17"
abbreviation (input) SCROLL_SLIDER_PADDING :: int where "SCROLL_SLIDER_PADDING \<equiv> 18"
abbreviation (input) SCROLL_SLIDER_SIZE :: int where "SCROLL_SLIDER_SIZE \<equiv> 19"
abbreviation (input) SCROLL_PADDING :: int where "SCROLL_PADDING \<equiv> 20"
abbreviation (input) SCROLL_SPEED :: int where "SCROLL_SPEED \<equiv> 21"
abbreviation (input) CHECK_PADDING :: int where "CHECK_PADDING \<equiv> 16"
abbreviation (input) COMBO_BUTTON_WIDTH :: int where "COMBO_BUTTON_WIDTH \<equiv> 16"
abbreviation (input) COMBO_BUTTON_SPACING :: int where "COMBO_BUTTON_SPACING \<equiv> 17"
abbreviation (input) ARROW_PADDING :: int where "ARROW_PADDING \<equiv> 16"
abbreviation (input) DROPDOWN_ITEMS_SPACING :: int where "DROPDOWN_ITEMS_SPACING \<equiv> 17"
abbreviation (input) SPIN_BUTTON_WIDTH :: int where "SPIN_BUTTON_WIDTH \<equiv> 16"
abbreviation (input) SPIN_BUTTON_SPACING :: int where "SPIN_BUTTON_SPACING \<equiv> 17"
abbreviation (input) LIST_ITEMS_HEIGHT :: int where "LIST_ITEMS_HEIGHT \<equiv> 16"
abbreviation (input) LIST_ITEMS_SPACING :: int where "LIST_ITEMS_SPACING \<equiv> 17"
abbreviation (input) SCROLLBAR_WIDTH :: int where "SCROLLBAR_WIDTH \<equiv> 18"
abbreviation (input) SCROLLBAR_SIDE :: int where "SCROLLBAR_SIDE \<equiv> 19"
abbreviation (input) COLOR_SELECTOR_SIZE :: int where "COLOR_SELECTOR_SIZE \<equiv> 16"
abbreviation (input) HUEBAR_WIDTH :: int where "HUEBAR_WIDTH \<equiv> 17"
abbreviation (input) HUEBAR_PADDING :: int where "HUEBAR_PADDING \<equiv> 18"
abbreviation (input) HUEBAR_SELECTOR_HEIGHT :: int where "HUEBAR_SELECTOR_HEIGHT \<equiv> 19"
abbreviation (input) HUEBAR_SELECTOR_OVERFLOW :: int where "HUEBAR_SELECTOR_OVERFLOW \<equiv> 20"

abbreviation (input) TEXT_ALIGN_LEFT :: int where "TEXT_ALIGN_LEFT \<equiv> 0"
abbreviation (input) TEXT_ALIGN_CENTER :: int where "TEXT_ALIGN_CENTER \<equiv> 1"
abbreviation (input) TEXT_ALIGN_RIGHT :: int where "TEXT_ALIGN_RIGHT \<equiv> 2"
abbreviation (input) TEXT_ALIGN_TOP :: int where "TEXT_ALIGN_TOP \<equiv> 0"
abbreviation (input) TEXT_ALIGN_MIDDLE :: int where "TEXT_ALIGN_MIDDLE \<equiv> 1"
abbreviation (input) TEXT_ALIGN_BOTTOM :: int where "TEXT_ALIGN_BOTTOM \<equiv> 2"
abbreviation (input) TEXT_WRAP_NONE :: int where "TEXT_WRAP_NONE \<equiv> 0"
abbreviation (input) TEXT_WRAP_CHAR :: int where "TEXT_WRAP_CHAR \<equiv> 1"
abbreviation (input) TEXT_WRAP_WORD :: int where "TEXT_WRAP_WORD \<equiv> 2"
abbreviation (input) SCROLLBAR_LEFT_SIDE :: int where "SCROLLBAR_LEFT_SIDE \<equiv> 0"
abbreviation (input) SCROLLBAR_RIGHT_SIDE :: int where "SCROLLBAR_RIGHT_SIDE \<equiv> 1"

abbreviation (input) RAYGUI_MAX_CONTROLS :: int where "RAYGUI_MAX_CONTROLS \<equiv> 16"
abbreviation (input) RAYGUI_MAX_PROPS_BASE :: int where "RAYGUI_MAX_PROPS_BASE \<equiv> 16"
abbreviation (input) RAYGUI_MAX_PROPS_EXTENDED :: int where "RAYGUI_MAX_PROPS_EXTENDED \<equiv> 8"

subsection \<open>Global variables\<close>

record gui =
  guiState :: int
  guiLocked :: bool
  guiAlpha :: c_float
  guiControlExclusiveMode :: bool
  guiControlExclusiveRec :: Rectangle
  guiStyle :: "int \<Rightarrow> 32 word"
  guiStyleLoaded :: bool

text \<open>The initial values of the globals, as their declarations give them.\<close>

definition gui_init :: gui where
  "gui_init =
     \<lparr> guiState = STATE_NORMAL, guiLocked = False, guiAlpha = Num 1,
       guiControlExclusiveMode = False,
       guiControlExclusiveRec = \<lparr> rec_x = 0, rec_y = 0, rec_width = 0, rec_height = 0 \<rparr>,
       guiStyle = (\<lambda>i. 0), guiStyleLoaded = False \<rparr>"

subsection \<open>Gui setup functions\<close>

definition GuiEnable :: "gui \<Rightarrow> gui" where
  "GuiEnable g = (if guiState g = STATE_DISABLED then g\<lparr>guiState := STATE_NORMAL\<rparr> else g)"

definition GuiDisable :: "gui \<Rightarrow> gui" where
  "GuiDisable g = (if guiState g = STATE_NORMAL then g\<lparr>guiState := STATE_DISABLED\<rparr> else g)"

definition GuiLock :: "gui \<Rightarrow> gui" where
  "GuiLock g = g\<lparr>guiLocked := True\<rparr>"

definition GuiUnlock :: "gui \<Rightarrow> gui" where
  "GuiUnlock g = g\<lparr>guiLocked := False\<rparr>"

text \<open>\<^verbatim>\<open>if (alpha < 0.0f) alpha = 0.0f; else if (alpha > 1.0f) alpha = 1.0f; guiAlpha = alpha;\<close>
  for any \<^verbatim>\<open>float\<close> the caller passes.\<close>

definition GuiSetAlpha :: "c_float \<Rightarrow> gui \<Rightarrow> gui" where
  "GuiSetAlpha alpha g =
     (let alpha1 = (if f_less alpha (Num 0) then Num 0
                    else if f_less (Num 1) alpha then Num 1 else alpha)
      in g\<lparr>guiAlpha := alpha1\<rparr>)"

definition GuiSetState :: "int \<Rightarrow> gui \<Rightarrow> gui" where
  "GuiSetState state g = g\<lparr>guiState := state\<rparr>"

definition GuiGetState :: "gui \<Rightarrow> int" where
  "GuiGetState g = guiState g"

subsection \<open>The style table\<close>

definition style_index :: "int \<Rightarrow> int \<Rightarrow> int" where
  "style_index control property =
     control*(RAYGUI_MAX_PROPS_BASE + RAYGUI_MAX_PROPS_EXTENDED) + property"

text \<open>The index is inside \<^verbatim>\<open>guiStyle[RAYGUI_MAX_CONTROLS*(RAYGUI_MAX_PROPS_BASE +
  RAYGUI_MAX_PROPS_EXTENDED)]\<close>.\<close>

definition style_in_bounds :: "int \<Rightarrow> int \<Rightarrow> bool" where
  "style_in_bounds control property =
     (0 \<le> style_index control property \<and>
      style_index control property
        < RAYGUI_MAX_CONTROLS*(RAYGUI_MAX_PROPS_BASE + RAYGUI_MAX_PROPS_EXTENDED))"

text \<open>The two assignments of \<^verbatim>\<open>GuiSetStyle\<close>: the slot itself, then, for a base property of
  \<^verbatim>\<open>DEFAULT\<close>, the loop \<^verbatim>\<open>for (int i = 1; i < RAYGUI_MAX_CONTROLS; i++)\<close> over the same slot
  of every control.\<close>

definition style_store :: "int \<Rightarrow> int \<Rightarrow> 32 word \<Rightarrow> (int \<Rightarrow> 32 word) \<Rightarrow> (int \<Rightarrow> 32 word)" where
  "style_store control property v st =
     (let st1 = st(style_index control property := v)
      in if control = 0 \<and> property < RAYGUI_MAX_PROPS_BASE
         then fold (\<lambda>i s. s(style_index i property := v)) [1..RAYGUI_MAX_CONTROLS - 1] st1
         else st1)"

text \<open>The calls \<^verbatim>\<open>GuiSetStyle(control, property, value)\<close> of \<^verbatim>\<open>GuiLoadStyleDefault\<close>, in
  the order of the source.\<close>

definition default_style_props :: "(int \<times> int \<times> 32 word) list" where
  "default_style_props =
    [(DEFAULT, BORDER_COLOR_NORMAL, 0x838383ff),
     (DEFAULT, BASE_COLOR_NORMAL, 0xc9c9c9ff),
     (DEFAULT, TEXT_COLOR_NORMAL, 0x686868ff),
     (DEFAULT, BORDER_COLOR_FOCUSED, 0x5bb2d9ff),
     (DEFAULT, BASE_COLOR_FOCUSED, 0xc9effeff),
     (DEFAULT, TEXT_COLOR_FOCUSED, 0x6c9bbcff),
     (DEFAULT, BORDER_COLOR_PRESSED, 0x0492c7ff),
     (DEFAULT, BASE_COLOR_PRESSED, 0x97e8ffff),
     (DEFAULT, TEXT_COLOR_PRESSED, 0x368bafff),
     (DEFAULT, BORDER_COLOR_DISABLED, 0xb5c1c2ff),
     (DEFAULT, BASE_COLOR_DISABLED, 0xe6e9e9ff),
     (DEFAULT, TEXT_COLOR_DISABLED, 0xaeb7b8ff),
     (DEFAULT, BORDER_WIDTH, 1),
     (DEFAULT, TEXT_PADDING, 0),
     (DEFAULT, TEXT_ALIGNMENT, 1),
     (DEFAULT, TEXT_SIZE, 10),
     (DEFAULT, TEXT_SPACING, 1),
     (DEFAULT, LINE_COLOR, 0x90abb5ff),
     (DEFAULT, BACKGROUND_COLOR, 0xf5f5f5ff),
     (DEFAULT, TEXT_LINE_SPACING, 15),
     (DEFAULT, TEXT_ALIGNMENT_VERTICAL, 1),
     (LABEL, TEXT_ALIGNMENT, 0),
     (BUTTON, BORDER_WIDTH, 2),
     (SLIDER, TEXT_PADDING, 4),
     (PROGRESSBAR, TEXT_PADDING, 4),
     (CHECKBOX, TEXT_PADDING, 4),
     (CHECKBOX, TEXT_ALIGNMENT, 2),
     (DROPDOWNBOX, TEXT_PADDING, 0),
     (DROPDOWNBOX, TEXT_ALIGNMENT, 1),
     (TEXTBOX, TEXT_PADDING, 4),
     (TEXTBOX, TEXT_ALIGNMENT, 0),
     (VALUEBOX, TEXT_PADDING, 0),
     (VALUEBOX, TEXT_ALIGNMENT, 0),
     (SPINNER, TEXT_PADDING, 0),
     (SPINNER, TEXT_ALIGNMENT, 0),
     (STATUSBAR, TEXT_PADDING, 8),
     (STATUSBAR, TEXT_ALIGNMENT, 0),
     (TOGGLE, GROUP_PADDING, 2),
     (SLIDER, SLIDER_WIDTH, 16),
     (SLIDER, SLIDER_PADDING, 1),
     (PROGRESSBAR, PROGRESS_PADDING, 1),
     (CHECKBOX, CHECK_PADDING, 1),
     (COMBOBOX, COMBO_BUTTON_WIDTH, 32),
     (COMBOBOX, COMBO_BUTTON_SPACING, 2),
     (DROPDOWNBOX, ARROW_PADDING, 16),
     (DROPDOWNBOX, DROPDOWN_ITEMS_SPACING, 2),
     (SPINNER, SPIN_BUTTON_WIDTH, 24),
     (SPINNER, SPIN_BUTTON_SPACING, 2),
     (SCROLLBAR, BORDER_WIDTH, 0),
     (SCROLLBAR, ARROWS_VISIBLE, 0),
     (SCROLLBAR, ARROWS_SIZE, 6),
     (SCROLLBAR, SCROLL_SLIDER_PADDING, 0),
     (SCROLLBAR, SCROLL_SLIDER_SIZE, 16),
     (SCROLLBAR, SCROLL_PADDING, 0),
     (SCROLLBAR, SCROLL_SPEED, 12),
     (LISTVIEW, LIST_ITEMS_HEIGHT, 28),
     (LISTVIEW, LIST_ITEMS_SPACING, 2),
     (LISTVIEW, SCROLLBAR_WIDTH, 12),
     (LISTVIEW, SCROLLBAR_SIDE, 1),
     (COLORPICKER, COLOR_SELECTOR_SIZE, 8),
     (COLORPICKER, HUEBAR_WIDTH, 16),
     (COLORPICKER, HUEBAR_PADDING, 8),
     (COLORPICKER, HUEBAR_SELECTOR_HEIGHT, 8),
     (COLORPICKER, HUEBAR_SELECTOR_OVERFLOW, 2)]"

text \<open>\<^verbatim>\<open>GuiLoadStyleDefault\<close> sets \<^verbatim>\<open>guiStyleLoaded\<close> first, so each of its
  \<^verbatim>\<open>GuiSetStyle\<close> calls goes straight to the two assignments. All its indices are inside
  the array. The font it installs is not part of \<open>gui\<close>: the text functions below take the
  font as a parameter.\<close>

definition GuiLoadStyleDefault :: "gui \<Rightarrow> gui" where
  "GuiLoadStyleDefault g =
     g\<lparr>guiStyleLoaded := True,
       guiStyle := fold (\<lambda>(control, property, v) st. style_store control property v st)
                        default_style_props (guiStyle g)\<rparr>"

text \<open>\<^verbatim>\<open>if (!guiStyleLoaded) GuiLoadStyleDefault();\<close>\<close>

definition style_loaded :: "gui \<Rightarrow> gui" where
  "style_loaded g = (if \<not> guiStyleLoaded g then GuiLoadStyleDefault g else g)"

definition GuiSetStyle :: "int \<Rightarrow> int \<Rightarrow> 32 word \<Rightarrow> gui \<Rightarrow> gui option" where
  "GuiSetStyle control property v g =
     (let g1 = style_loaded g
      in if style_in_bounds control property
         then Some (g1\<lparr>guiStyle := style_store control property v (guiStyle g1)\<rparr>)
         else None)"

text \<open>\<^verbatim>\<open>GuiGetStyle\<close> returns the value and the globals, which the lazy load may have
  changed.\<close>

definition GuiGetStyle :: "int \<Rightarrow> int \<Rightarrow> gui \<Rightarrow> (32 word \<times> gui) option" where
  "GuiGetStyle control property g =
     (let g1 = style_loaded g
      in if style_in_bounds control property
         then Some (guiStyle g1 (style_index control property), g1)
         else None)"

text \<open>A sequence of \<^verbatim>\<open>GuiSetStyle\<close> calls, in order.\<close>

fun GuiSetStyle_all :: "(int \<times> int \<times> 32 word) list \<Rightarrow> gui \<Rightarrow> gui option" where
  "GuiSetStyle_all [] g = Some g"
| "GuiSetStyle_all ((control, property, v) # ws) g =
     (case GuiSetStyle control property v g of
        None \<Rightarrow> None
      | Some g1 \<Rightarrow> GuiSetStyle_all ws g1)"

text \<open>The value of the last call in \<open>ws\<close> that names property \<open>p\<close> of control \<open>c\<close> or
  of \<^verbatim>\<open>DEFAULT\<close>; \<open>v\<close> when there is none.\<close>

definition last_write :: "int \<Rightarrow> int \<Rightarrow> (int \<times> int \<times> 32 word) list \<Rightarrow> 32 word \<Rightarrow> 32 word" where
  "last_write c p ws v =
     fold (\<lambda>(c', p', w) acc. if p' = p \<and> (c' = c \<or> c' = DEFAULT) then w else acc) ws v"

text \<open>A call whose control and property are both inside their ranges.\<close>

definition style_ids_ok :: "(int \<times> int \<times> 32 word) \<Rightarrow> bool" where
  "style_ids_ok = (\<lambda>(c', p', w). 0 \<le> c' \<and> c' < RAYGUI_MAX_CONTROLS \<and>
                      0 \<le> p' \<and> p' < RAYGUI_MAX_PROPS_BASE + RAYGUI_MAX_PROPS_EXTENDED)"

subsection \<open>Text: C strings, icons, UTF-8\<close>

text \<open>
  A C string is the list of its bytes before the terminating NUL; the pointer \<^verbatim>\<open>text + k\<close>
  is \<open>drop k text\<close>. Reading at the end of the list reads the terminator. No function
  below reads past the terminator: each read follows a test that the byte before it is
  not NUL, so \<open>byte_at\<close> can answer 0 there too. Whether \<^verbatim>\<open>char\<close> is signed has no effect on
  the tests of the source (digits, \<^verbatim>\<open>'#'\<close>, masks below 256), so a byte is an \<open>8 word\<close>.
\<close>

type_synonym byte = "8 word"

definition byte_at :: "byte list \<Rightarrow> nat \<Rightarrow> byte" where
  "byte_at text i = (if i < length text then text ! i else 0)"

text \<open>\<^verbatim>\<open>(text[i] >= '0') && (text[i] <= '9')\<close>\<close>

definition is_digit :: "byte \<Rightarrow> bool" where
  "is_digit b = (0x30 \<le> b \<and> b \<le> 0x39)"

text \<open>The loop of \<^verbatim>\<open>TextToInteger\<close>:
  \<^verbatim>\<open>for (int i = 0; ((text[i] >= '0') && (text[i] <= '9')); ++i) value = value*10 + (int)(text[i] - '0');\<close>\<close>

fun digits_value :: "byte list \<Rightarrow> int \<Rightarrow> int" where
  "digits_value [] v = v"
| "digits_value (b # bs) v =
     (if is_digit b then digits_value bs (v*10 + (uint b - 0x30)) else v)"

definition TextToInteger :: "byte list \<Rightarrow> int" where
  "TextToInteger text =
     (if byte_at text 0 = 0x2B \<or> byte_at text 0 = 0x2D
      then (let sign = (if byte_at text 0 = 0x2D then -1 else 1)
            in digits_value (drop 1 text) 0 * sign)
      else digits_value text 0 * 1)"

text \<open>The C string held in a \<^verbatim>\<open>char\<close> buffer: its bytes up to the first NUL.\<close>

definition c_string :: "byte list \<Rightarrow> byte list" where
  "c_string buf = takeWhile (\<lambda>b. b \<noteq> 0) buf"

text \<open>The loop of \<^verbatim>\<open>GetTextIcon\<close>:
  \<^verbatim>\<open>while ((pos < 4) && (text[pos] >= '0') && (text[pos] <= '9')) { iconValue[pos - 1] = text[pos]; pos++; }\<close>\<close>

function icon_scan :: "byte list \<Rightarrow> nat \<Rightarrow> byte list \<Rightarrow> nat \<times> byte list" where
  "icon_scan text pos iconValue =
     (if pos < 4 \<and> is_digit (byte_at text pos)
      then icon_scan text (pos + 1) (iconValue[pos - 1 := byte_at text pos])
      else (pos, iconValue))"
  by pat_completeness auto
termination
  by (relation "measure (\<lambda>(text, pos, iconValue). 4 - pos)") auto

declare icon_scan.simps [simp del]

text \<open>\<^verbatim>\<open>GetTextIcon\<close> (icons enabled) returns the moved text pointer and \<^verbatim>\<open>*iconId\<close>.\<close>

definition GetTextIcon :: "byte list \<Rightarrow> byte list \<times> int" where
  "GetTextIcon text =
     (if byte_at text 0 = 0x23
      then (let (pos, iconValue) = icon_scan text 1 [0, 0, 0, 0]
            in if byte_at text pos = 0x23
               then (let iconId = TextToInteger (c_string iconValue)
                     in if iconId \<ge> 0 then (drop (pos + 1) text, iconId) else (text, iconId))
               else (text, -1))
      else (text, -1))"

text \<open>The decimal value of a digit string, most significant digit first.\<close>

definition decimal :: "byte list \<Rightarrow> int" where
  "decimal ds = fold (\<lambda>d v. 10*v + (uint d - 0x30)) ds 0"

text \<open>\<^verbatim>\<open>(ptr[k] & 0xC0) ^ 0x80\<close> is not zero: the byte is not of the form \<^verbatim>\<open>10xxxxxx\<close>.\<close>

definition cont_bad :: "byte \<Rightarrow> bool" where
  "cont_bad b = ((b AND 0xC0) XOR 0x80 \<noteq> 0)"

text \<open>\<^verbatim>\<open>GetCodepointNext\<close> returns the codepoint and \<^verbatim>\<open>*codepointSize\<close>. In C the bytes are
  promoted to \<^verbatim>\<open>int\<close> before masking; every mask is below 256, so the masked value is the
  masked byte, read unsigned. The \<^verbatim>\<open>||\<close> of the checks stops at the first bad byte, and a
  NUL is a bad continuation byte, so no byte after the terminator is read.\<close>

definition GetCodepointNext :: "byte list \<Rightarrow> int \<times> nat" where
  "GetCodepointNext ptr =
     (let b0 = byte_at ptr 0; b1 = byte_at ptr 1; b2 = byte_at ptr 2; b3 = byte_at ptr 3
      in if b0 AND 0xf8 = 0xf0
         then (if cont_bad b1 \<or> cont_bad b2 \<or> cont_bad b3 then (0x3f, 1)
               else (push_bit 18 (uint (b0 AND 0x07)) OR push_bit 12 (uint (b1 AND 0x3f)) OR
                     push_bit 6 (uint (b2 AND 0x3f)) OR uint (b3 AND 0x3f), 4))
         else if b0 AND 0xf0 = 0xe0
         then (if cont_bad b1 \<or> cont_bad b2 then (0x3f, 1)
               else (push_bit 12 (uint (b0 AND 0x0f)) OR push_bit 6 (uint (b1 AND 0x3f)) OR
                     uint (b2 AND 0x3f), 3))
         else if b0 AND 0xe0 = 0xc0
         then (if cont_bad b1 then (0x3f, 1)
               else (push_bit 6 (uint (b0 AND 0x1f)) OR uint (b1 AND 0x3f), 2))
         else if b0 AND 0x80 = 0x00
         then (uint b0, 1)
         else (0x3f, 1))"

text \<open>The step of the cursor \<^verbatim>\<open>c\<close> in the glyph loop of \<^verbatim>\<open>GuiDrawText\<close>:
  \<^verbatim>\<open>int codepoint = GetCodepointNext(&lines[i][c], &codepointSize);
  if (codepoint == 0x3f) codepointSize = 1;\<close> and then \<^verbatim>\<open>c += codepointSize\<close>.\<close>

definition cursor_step :: "byte list \<Rightarrow> nat" where
  "cursor_step ptr =
     (let (codepoint, codepointSize) = GetCodepointNext ptr
      in if codepoint = 0x3f then 1 else codepointSize)"

text \<open>UTF-8 as the standard words it: the length a lead byte announces (0 for a byte that
  cannot lead), continuation bytes \<open>0x80..0xBF\<close>, and the value of a sequence.\<close>

definition utf8_length :: "byte \<Rightarrow> nat" where
  "utf8_length b =
     (if b \<le> 0x7F then 1
      else if 0xC0 \<le> b \<and> b \<le> 0xDF then 2
      else if 0xE0 \<le> b \<and> b \<le> 0xEF then 3
      else if 0xF0 \<le> b \<and> b \<le> 0xF7 then 4
      else 0)"

definition utf8_continuation :: "byte \<Rightarrow> bool" where
  "utf8_continuation b = (0x80 \<le> b \<and> b \<le> 0xBF)"

definition utf8_well_formed :: "byte list \<Rightarrow> bool" where
  "utf8_well_formed ptr =
     (let n = utf8_length (byte_at ptr 0)
      in 0 < n \<and> list_all (\<lambda>k. utf8_continuation (byte_at ptr k)) [1..<n])"

definition utf8_value :: "byte list \<Rightarrow> int" where
  "utf8_value ptr =
     (let n = utf8_length (byte_at ptr 0);
          c1 = uint (byte_at ptr 1) - 0x80;
          c2 = uint (byte_at ptr 2) - 0x80;
          c3 = uint (byte_at ptr 3) - 0x80
      in if n = 1 then uint (byte_at ptr 0)
         else if n = 2 then (uint (byte_at ptr 0) - 0xC0)*64 + c1
         else if n = 3 then (uint (byte_at ptr 0) - 0xE0)*4096 + c1*64 + c2
         else (uint (byte_at ptr 0) - 0xF0)*262144 + c1*4096 + c2*64 + c3)"

text \<open>The cursor positions the glyph loop of \<^verbatim>\<open>GuiDrawText\<close> visits on one line:
  \<^verbatim>\<open>for (int c = 0, codepointSize = 0; c < lineSize; c += codepointSize)\<close>, left early by
  \<^verbatim>\<open>if (codepoint == '\n') break;\<close>. The termination proof is below, next to the fact it
  needs.\<close>

function glyph_cursors :: "byte list \<Rightarrow> nat \<Rightarrow> nat \<Rightarrow> nat list" where
  "glyph_cursors line lineSize c =
     (if c < lineSize
      then (if fst (GetCodepointNext (drop c line)) = 0x0A then [c]
            else c # glyph_cursors line lineSize (c + cursor_step (drop c line)))
      else [])"
  by pat_completeness auto

subsection \<open>Colour conversion\<close>

text \<open>The casts \<^verbatim>\<open>(int)f\<close> and \<^verbatim>\<open>(long)f\<close>: truncation towards zero.\<close>

definition trunc_int :: "real \<Rightarrow> int" where
  "trunc_int f = (if 0 \<le> f then \<lfloor>f\<rfloor> else \<lceil>f\<rceil>)"

text \<open>The literal \<^verbatim>\<open>0.00001f\<close> of \<^verbatim>\<open>ConvertRGBtoHSV\<close> is the \<^verbatim>\<open>float\<close> next to one hundred
  thousandth, \<open>2748779 / 2 ^ 38\<close>, a little below it. The other literals of the two
  conversions (0, 1, 2, 4, 60, 360) are \<^verbatim>\<open>float\<close> values as written.\<close>

abbreviation (input) float_0_00001 :: real where
  "float_0_00001 \<equiv> 2748779 / 274877906944"

definition ConvertRGBtoHSV :: "Vector3 \<Rightarrow> Vector3" where
  "ConvertRGBtoHSV rgb =
     (let min1 = (if v3_x rgb < v3_y rgb then v3_x rgb else v3_y rgb);
          min2 = (if min1 < v3_z rgb then min1 else v3_z rgb);
          max1 = (if v3_x rgb > v3_y rgb then v3_x rgb else v3_y rgb);
          max2 = (if max1 > v3_z rgb then max1 else v3_z rgb);
          delta = max2 - min2
      in if delta < float_0_00001
         then \<lparr> v3_x = 0, v3_y = 0, v3_z = max2 \<rparr>
         else if max2 > 0
         then (let s = delta/max2;
                   h = (if v3_x rgb \<ge> max2 then (v3_y rgb - v3_z rgb)/delta
                        else if v3_y rgb \<ge> max2 then 2 + (v3_z rgb - v3_x rgb)/delta
                        else 4 + (v3_x rgb - v3_y rgb)/delta);
                   h1 = h*60;
                   h2 = (if h1 < 0 then h1 + 360 else h1)
               in \<lparr> v3_x = h2, v3_y = s, v3_z = max2 \<rparr>)
         else \<lparr> v3_x = 0, v3_y = 0, v3_z = max2 \<rparr>)"

definition ConvertHSVtoRGB :: "Vector3 \<Rightarrow> Vector3" where
  "ConvertHSVtoRGB hsv =
     (if v3_y hsv \<le> 0
      then \<lparr> v3_x = v3_z hsv, v3_y = v3_z hsv, v3_z = v3_z hsv \<rparr>
      else (let hh0 = v3_x hsv;
                hh1 = (if hh0 \<ge> 360 then 0 else hh0);
                hh = hh1/60;
                i = trunc_int hh;
                ff = hh - of_int i;
                p = v3_z hsv*(1 - v3_y hsv);
                q = v3_z hsv*(1 - (v3_y hsv*ff));
                t = v3_z hsv*(1 - (v3_y hsv*(1 - ff)))
            in if i = 0 then \<lparr> v3_x = v3_z hsv, v3_y = t, v3_z = p \<rparr>
               else if i = 1 then \<lparr> v3_x = q, v3_y = v3_z hsv, v3_z = p \<rparr>
               else if i = 2 then \<lparr> v3_x = p, v3_y = v3_z hsv, v3_z = t \<rparr>
               else if i = 3 then \<lparr> v3_x = p, v3_y = q, v3_z = v3_z hsv \<rparr>
               else if i = 4 then \<lparr> v3_x = t, v3_y = p, v3_z = v3_z hsv \<rparr>
               else \<lparr> v3_x = v3_z hsv, v3_y = p, v3_z = q \<rparr>))"

subsection \<open>Input and controls\<close>

text \<open>What the host reports for the current frame: \<^verbatim>\<open>GetMousePosition()\<close>,
  \<^verbatim>\<open>IsMouseButtonDown/Pressed/Released(MOUSE_LEFT_BUTTON)\<close>, \<^verbatim>\<open>GetMouseWheelMove()\<close>,
  \<^verbatim>\<open>IsKeyDown(KEY_LEFT_CONTROL)\<close> and \<^verbatim>\<open>IsKeyDown(KEY_LEFT_SHIFT)\<close>.\<close>

record input =
  mousePosition :: Vector2
  mouseLeftDown :: bool
  mouseLeftPressed :: bool
  mouseLeftReleased :: bool
  mouseWheelMove :: real
  keyLeftControlDown :: bool
  keyLeftShiftDown :: bool

definition CheckCollisionPointRec :: "Vector2 \<Rightarrow> Rectangle \<Rightarrow> bool" where
  "CheckCollisionPointRec point rec =
     (v2_x point \<ge> rec_x rec \<and> v2_x point \<le> rec_x rec + rec_width rec \<and>
      v2_y point \<ge> rec_y rec \<and> v2_y point \<le> rec_y rec + rec_height rec)"

definition CHECK_BOUNDS_ID :: "Rectangle \<Rightarrow> Rectangle \<Rightarrow> bool" where
  "CHECK_BOUNDS_ID src dst =
     (rec_x src = rec_x dst \<and> rec_y src = rec_y dst \<and>
      rec_width src = rec_width dst \<and> rec_height src = rec_height dst)"

text \<open>Integer division of C: the quotient is truncated towards zero.\<close>

definition c_div :: "int \<Rightarrow> int \<Rightarrow> int" where
  "c_div a b = sgn a * sgn b * (\<bar>a\<bar> div \<bar>b\<bar>)"

text \<open>A style value read as the \<^verbatim>\<open>int\<close> that \<^verbatim>\<open>GuiGetStyle\<close> returns, for ids inside the
  array, once the style is loaded.\<close>

definition style_int :: "gui \<Rightarrow> int \<Rightarrow> int \<Rightarrow> int" where
  "style_int g control property = sint (guiStyle g (style_index control property))"


text \<open>\<^verbatim>\<open>GuiSliderPro\<close>, called with a \<^verbatim>\<open>value\<close> pointer that is not \<^verbatim>\<open>NULL\<close>: the update of
  the control and the value change check. The arguments are real numbers. The value taken
  from the pointer divides by \<^verbatim>\<open>bounds.width - sliderWidth\<close>; where that is zero the
  quotient is an infinity or NaN and the function goes on with it, so the new \<^verbatim>\<open>*value\<close> is
  a \<open>c_float\<close>. The result is \<^verbatim>\<open>result\<close>, the new \<^verbatim>\<open>*value\<close>, the state the control is drawn
  in and the globals. The slider bar limits and the draw calls that follow change none of
  the four results.\<close>

definition slider_value_at :: "Rectangle \<Rightarrow> real \<Rightarrow> real \<Rightarrow> int \<Rightarrow> Vector2 \<Rightarrow> c_float" where
  "slider_value_at bounds minValue maxValue sliderWidth mousePoint =
     f_add (f_mul (Num (maxValue - minValue))
              (f_div (Num (v2_x mousePoint - rec_x bounds - of_int (c_div sliderWidth 2)))
                     (Num (rec_width bounds - of_int sliderWidth))))
           (Num minValue)"








subsection \<open>Scroll bar and scroll panel\<close>

text \<open>\<^verbatim>\<open>GuiSetStyle\<close> on a loaded style, for ids inside the array.\<close>

definition style_set :: "int \<Rightarrow> int \<Rightarrow> int \<Rightarrow> gui \<Rightarrow> gui" where
  "style_set control property v g =
     g\<lparr>guiStyle := style_store control property (word_of_int v) (guiStyle g)\<rparr>"

text \<open>The rectangles of \<^verbatim>\<open>GuiScrollBar\<close>: the arrow buttons, the track (\<^verbatim>\<open>scrollbar\<close>) and the
  thumb (\<^verbatim>\<open>slider\<close>), with the normalised \<^verbatim>\<open>value\<close> and \<^verbatim>\<open>valueRange\<close>.\<close>

record scrollbar_layout =
  sl_isVertical :: bool
  sl_value :: int
  sl_valueRange :: int
  sl_arrowUpLeft :: Rectangle
  sl_arrowDownRight :: Rectangle
  sl_scrollbar :: Rectangle
  sl_slider :: Rectangle

definition GuiScrollBar_layout :: "gui \<Rightarrow> Rectangle \<Rightarrow> int \<Rightarrow> int \<Rightarrow> int \<Rightarrow> scrollbar_layout" where
  "GuiScrollBar_layout g bounds value0 minValue maxValue =
     (let border = style_int g SCROLLBAR BORDER_WIDTH;
          isVertical = (if rec_width bounds > rec_height bounds then False else True);
          spinnerSize = (if style_int g SCROLLBAR ARROWS_VISIBLE \<noteq> 0
                         then (if isVertical then trunc_int (rec_width bounds) - 2*border
                               else trunc_int (rec_height bounds) - 2*border)
                         else 0);
          value1 = (if value0 > maxValue then maxValue else value0);
          value2 = (if value1 < minValue then minValue else value1);
          valueRange0 = maxValue - minValue;
          valueRange = (if valueRange0 \<le> 0 then 1 else valueRange0);
          sliderSize0 = style_int g SCROLLBAR SCROLL_SLIDER_SIZE;
          sliderSize1 = (if sliderSize0 < 1 then 1 else sliderSize0);
          arrowUpLeft = \<lparr> rec_x = rec_x bounds + of_int border,
                          rec_y = rec_y bounds + of_int border,
                          rec_width = of_int spinnerSize, rec_height = of_int spinnerSize \<rparr>
      in if isVertical
         then (let arrowDownRight =
                     \<lparr> rec_x = rec_x bounds + of_int border,
                       rec_y = rec_y bounds + rec_height bounds - of_int spinnerSize - of_int border,
                       rec_width = of_int spinnerSize, rec_height = of_int spinnerSize \<rparr>;
                   scrollbar =
                     \<lparr> rec_x = rec_x bounds + of_int border
                               + of_int (style_int g SCROLLBAR SCROLL_PADDING),
                       rec_y = rec_y arrowUpLeft + rec_height arrowUpLeft,
                       rec_width = rec_width bounds
                               - of_int (2*(border + style_int g SCROLLBAR SCROLL_PADDING)),
                       rec_height = rec_height bounds - rec_height arrowUpLeft
                               - rec_height arrowDownRight - of_int (2*border) \<rparr>;
                   sliderSize = (if of_int sliderSize1 \<ge> rec_height scrollbar
                                 then trunc_int (rec_height scrollbar) - 2 else sliderSize1);
                   slider =
                     \<lparr> rec_x = rec_x bounds + of_int border
                               + of_int (style_int g SCROLLBAR SCROLL_SLIDER_PADDING),
                       rec_y = rec_y scrollbar
                               + of_int (trunc_int ((of_int (value2 - minValue)/of_int valueRange)
                                                    *(rec_height scrollbar - of_int sliderSize))),
                       rec_width = rec_width bounds
                               - of_int (2*(border + style_int g SCROLLBAR SCROLL_SLIDER_PADDING)),
                       rec_height = of_int sliderSize \<rparr>
               in \<lparr> sl_isVertical = isVertical, sl_value = value2, sl_valueRange = valueRange,
                    sl_arrowUpLeft = arrowUpLeft, sl_arrowDownRight = arrowDownRight,
                    sl_scrollbar = scrollbar, sl_slider = slider \<rparr>)
         else (let arrowDownRight =
                     \<lparr> rec_x = rec_x bounds + rec_width bounds - of_int spinnerSize - of_int border,
                       rec_y = rec_y bounds + of_int border,
                       rec_width = of_int spinnerSize, rec_height = of_int spinnerSize \<rparr>;
                   scrollbar =
                     \<lparr> rec_x = rec_x arrowUpLeft + rec_width arrowUpLeft,
                       rec_y = rec_y bounds + of_int border
                               + of_int (style_int g SCROLLBAR SCROLL_PADDING),
                       rec_width = rec_width bounds - rec_width arrowUpLeft
                               - rec_width arrowDownRight - of_int (2*border),
                       rec_height = rec_height bounds
                               - of_int (2*(border + style_int g SCROLLBAR SCROLL_PADDING)) \<rparr>;
                   sliderSize = (if of_int sliderSize1 \<ge> rec_width scrollbar
                                 then trunc_int (rec_width scrollbar) - 2 else sliderSize1);
                   slider =
                     \<lparr> rec_x = rec_x scrollbar
                               + of_int (trunc_int ((of_int (value2 - minValue)/of_int valueRange)
                                                    *(rec_width scrollbar - of_int sliderSize))),
                       rec_y = rec_y bounds + of_int border
                               + of_int (style_int g SCROLLBAR SCROLL_SLIDER_PADDING),
                       rec_width = of_int sliderSize,
                       rec_height = rec_height bounds
                               - of_int (2*(border + style_int g SCROLLBAR SCROLL_SLIDER_PADDING)) \<rparr>
               in \<lparr> sl_isVertical = isVertical, sl_value = value2, sl_valueRange = valueRange,
                    sl_arrowUpLeft = arrowUpLeft, sl_arrowDownRight = arrowDownRight,
                    sl_scrollbar = scrollbar, sl_slider = slider \<rparr>))"

text \<open>The value a pointer position stands for:
  \<^verbatim>\<open>(int)(((float)(mousePoint.y - scrollbar.y - slider.height/2)*valueRange)/(scrollbar.height - slider.height) + minValue)\<close>
  and the same along x for a horizontal bar.\<close>

definition scrollbar_value_at :: "scrollbar_layout \<Rightarrow> int \<Rightarrow> Vector2 \<Rightarrow> int" where
  "scrollbar_value_at l minValue mousePoint =
     (if sl_isVertical l
      then trunc_int (((v2_y mousePoint - rec_y (sl_scrollbar l) - rec_height (sl_slider l)/2)
                        *of_int (sl_valueRange l))
                      /(rec_height (sl_scrollbar l) - rec_height (sl_slider l)) + of_int minValue)
      else trunc_int (((v2_x mousePoint - rec_x (sl_scrollbar l) - rec_width (sl_slider l)/2)
                        *of_int (sl_valueRange l))
                      /(rec_width (sl_scrollbar l) - rec_width (sl_slider l)) + of_int minValue))"

text \<open>\<^verbatim>\<open>GuiScrollBar\<close> returns \<^verbatim>\<open>value\<close>; the model adds the state the bar is drawn in and
  the globals. Its callers have loaded the style. A click on an arrow divides by
  \<^verbatim>\<open>SCROLL_SPEED\<close>: for the value 0 the C division is undefined, \<open>None\<close>.\<close>

definition GuiScrollBar ::
  "Rectangle \<Rightarrow> int \<Rightarrow> int \<Rightarrow> int \<Rightarrow> input \<Rightarrow> gui \<Rightarrow> (int \<times> int \<times> gui) option" where
  "GuiScrollBar bounds value0 minValue maxValue inp g =
     (let state = guiState g;
          l = GuiScrollBar_layout g bounds value0 minValue maxValue;
          v = sl_value l;
          mousePoint = mousePosition inp;
          normalize = (\<lambda>x. let x1 = (if x > maxValue then maxValue else x)
                            in if x1 < minValue then minValue else x1)
      in if state \<noteq> STATE_DISABLED \<and> \<not> guiLocked g
         then (if guiControlExclusiveMode g
               then (if mouseLeftDown inp \<and>
                        \<not> CheckCollisionPointRec mousePoint (sl_arrowUpLeft l) \<and>
                        \<not> CheckCollisionPointRec mousePoint (sl_arrowDownRight l)
                     then (if CHECK_BOUNDS_ID bounds (guiControlExclusiveRec g)
                           then Some (normalize (scrollbar_value_at l minValue mousePoint),
                                      STATE_PRESSED, g)
                           else Some (normalize v, state, g))
                     else Some (normalize v, state,
                                g\<lparr>guiControlExclusiveMode := False,
                                  guiControlExclusiveRec :=
                                    \<lparr> rec_x = 0, rec_y = 0, rec_width = 0, rec_height = 0 \<rparr>\<rparr>))
               else if CheckCollisionPointRec mousePoint bounds
               then (let wheel = trunc_int (mouseWheelMove inp);
                         v1 = (if wheel \<noteq> 0 then v + wheel else v)
                     in if mouseLeftPressed inp
                        then (let g1 = g\<lparr>guiControlExclusiveMode := True,
                                         guiControlExclusiveRec := bounds\<rparr>
                              in if CheckCollisionPointRec mousePoint (sl_arrowUpLeft l)
                                 then (if style_int g SCROLLBAR SCROLL_SPEED = 0 then None
                                       else Some (normalize (v1 - c_div (sl_valueRange l)
                                                    (style_int g SCROLLBAR SCROLL_SPEED)),
                                                  STATE_PRESSED, g1))
                                 else if CheckCollisionPointRec mousePoint (sl_arrowDownRight l)
                                 then (if style_int g SCROLLBAR SCROLL_SPEED = 0 then None
                                       else Some (normalize (v1 + c_div (sl_valueRange l)
                                                    (style_int g SCROLLBAR SCROLL_SPEED)),
                                                  STATE_PRESSED, g1))
                                 else if \<not> CheckCollisionPointRec mousePoint (sl_slider l)
                                 then Some (normalize (scrollbar_value_at l minValue mousePoint),
                                            STATE_PRESSED, g1)
                                 else Some (normalize v1, STATE_PRESSED, g1))
                        else Some (normalize v1, STATE_FOCUSED, g))
               else Some (normalize v, state, g))
         else Some (v, state, g))"

text \<open>\<^verbatim>\<open>GuiScrollPanel\<close>, called with \<^verbatim>\<open>scroll\<close> and \<^verbatim>\<open>view\<close> pointers that are not \<^verbatim>\<open>NULL\<close>;
  \<open>hasText\<close> says that \<^verbatim>\<open>text\<close> is not \<^verbatim>\<open>NULL\<close>. First the bounds of the panel below the
  header bar.\<close>

abbreviation (input) RAYGUI_WINDOWBOX_STATUSBAR_HEIGHT :: int where
  "RAYGUI_WINDOWBOX_STATUSBAR_HEIGHT \<equiv> 24"
abbreviation (input) RAYGUI_MIN_SCROLLBAR_WIDTH :: real where "RAYGUI_MIN_SCROLLBAR_WIDTH \<equiv> 40"
abbreviation (input) RAYGUI_MIN_SCROLLBAR_HEIGHT :: real where "RAYGUI_MIN_SCROLLBAR_HEIGHT \<equiv> 40"
abbreviation (input) RAYGUI_MIN_MOUSE_WHEEL_SPEED :: real where "RAYGUI_MIN_MOUSE_WHEEL_SPEED \<equiv> 20"

definition panel_bounds :: "Rectangle \<Rightarrow> bool \<Rightarrow> Rectangle" where
  "panel_bounds bounds0 hasText =
     (let bounds1 = (if rec_height bounds0 < of_int RAYGUI_WINDOWBOX_STATUSBAR_HEIGHT*2
                     then bounds0\<lparr>rec_height := of_int RAYGUI_WINDOWBOX_STATUSBAR_HEIGHT*2\<rparr>
                     else bounds0)
      in if hasText
         then bounds1\<lparr>rec_y := rec_y bounds1 + (of_int RAYGUI_WINDOWBOX_STATUSBAR_HEIGHT - 1),
                      rec_height := rec_height bounds1
                                      - (of_int RAYGUI_WINDOWBOX_STATUSBAR_HEIGHT + 1)\<rparr>
         else bounds1)"

text \<open>Which scrollbars the panel has: the first test, then the recheck that accounts for
  the other scrollbar being visible. The result is
  \<open>(hasHorizontalScrollBar, hasVerticalScrollBar)\<close>.\<close>

definition panel_scrollbars :: "gui \<Rightarrow> Rectangle \<Rightarrow> Rectangle \<Rightarrow> bool \<times> bool" where
  "panel_scrollbars g bounds content =
     (let border = style_int g DEFAULT BORDER_WIDTH;
          sbw = style_int g LISTVIEW SCROLLBAR_WIDTH;
          hasH0 = (rec_width content > rec_width bounds - of_int (2*border));
          hasV0 = (rec_height content > rec_height bounds - of_int (2*border));
          hasH = (if \<not> hasH0
                  then hasV0 \<and> rec_width content
                                 > rec_width bounds - of_int (2*border) - of_int sbw
                  else hasH0);
          hasV = (if \<not> hasV0
                  then hasH \<and> rec_height content
                                 > rec_height bounds - of_int (2*border) - of_int sbw
                  else hasV0)
      in (hasH, hasV))"

text \<open>The limits of the scroll position:
  \<open>(horizontalMin, horizontalMax, verticalMin, verticalMax)\<close>.\<close>

definition panel_limits :: "gui \<Rightarrow> Rectangle \<Rightarrow> Rectangle \<Rightarrow> real \<times> real \<times> real \<times> real" where
  "panel_limits g bounds content =
     (let (hasH, hasV) = panel_scrollbars g bounds content;
          border = style_int g DEFAULT BORDER_WIDTH;
          horizontalScrollBarWidth = (if hasH then style_int g LISTVIEW SCROLLBAR_WIDTH else 0);
          verticalScrollBarWidth = (if hasV then style_int g LISTVIEW SCROLLBAR_WIDTH else 0);
          left = (style_int g LISTVIEW SCROLLBAR_SIDE = SCROLLBAR_LEFT_SIDE);
          horizontalMin = (if left then - of_int verticalScrollBarWidth else 0) - of_int border;
          horizontalMax = (if hasH
                           then rec_width content - rec_width bounds
                                  + of_int verticalScrollBarWidth + of_int border
                                  - (if left then of_int verticalScrollBarWidth else 0)
                           else - of_int border);
          verticalMin = (if hasV then 0 else - 1);
          verticalMax = (if hasV
                         then rec_height content - rec_height bounds
                                + of_int horizontalScrollBarWidth + of_int border
                         else - of_int border)
      in (horizontalMin, horizontalMax, verticalMin, verticalMax))"

text \<open>The rectangles of the two scrollbars, with their minimum length, and the view.\<close>

definition panel_horizontalScrollBar :: "gui \<Rightarrow> Rectangle \<Rightarrow> Rectangle \<Rightarrow> Rectangle" where
  "panel_horizontalScrollBar g bounds content =
     (let (hasH, hasV) = panel_scrollbars g bounds content;
          border = style_int g DEFAULT BORDER_WIDTH;
          horizontalScrollBarWidth = (if hasH then style_int g LISTVIEW SCROLLBAR_WIDTH else 0);
          verticalScrollBarWidth = (if hasV then style_int g LISTVIEW SCROLLBAR_WIDTH else 0);
          left = (style_int g LISTVIEW SCROLLBAR_SIDE = SCROLLBAR_LEFT_SIDE);
          r = \<lparr> rec_x = (if left then rec_x bounds + of_int verticalScrollBarWidth
                            else rec_x bounds) + of_int border,
                rec_y = rec_y bounds + rec_height bounds - of_int horizontalScrollBarWidth
                          - of_int border,
                rec_width = rec_width bounds - of_int verticalScrollBarWidth - of_int (2*border),
                rec_height = of_int horizontalScrollBarWidth \<rparr>
      in if rec_width r < RAYGUI_MIN_SCROLLBAR_WIDTH
         then r\<lparr>rec_width := RAYGUI_MIN_SCROLLBAR_WIDTH\<rparr> else r)"

definition panel_verticalScrollBar :: "gui \<Rightarrow> Rectangle \<Rightarrow> Rectangle \<Rightarrow> Rectangle" where
  "panel_verticalScrollBar g bounds content =
     (let (hasH, hasV) = panel_scrollbars g bounds content;
          border = style_int g DEFAULT BORDER_WIDTH;
          horizontalScrollBarWidth = (if hasH then style_int g LISTVIEW SCROLLBAR_WIDTH else 0);
          verticalScrollBarWidth = (if hasV then style_int g LISTVIEW SCROLLBAR_WIDTH else 0);
          left = (style_int g LISTVIEW SCROLLBAR_SIDE = SCROLLBAR_LEFT_SIDE);
          r = \<lparr> rec_x = (if left then rec_x bounds + of_int border
                            else rec_x bounds + rec_width bounds - of_int verticalScrollBarWidth
                                   - of_int border),
                rec_y = rec_y bounds + of_int border,
                rec_width = of_int verticalScrollBarWidth,
                rec_height = rec_height bounds - of_int horizontalScrollBarWidth
                               - of_int (2*border) \<rparr>
      in if rec_height r < RAYGUI_MIN_SCROLLBAR_HEIGHT
         then r\<lparr>rec_height := RAYGUI_MIN_SCROLLBAR_HEIGHT\<rparr> else r)"

definition panel_view :: "gui \<Rightarrow> Rectangle \<Rightarrow> Rectangle \<Rightarrow> Rectangle" where
  "panel_view g bounds content =
     (let (hasH, hasV) = panel_scrollbars g bounds content;
          border = style_int g DEFAULT BORDER_WIDTH;
          horizontalScrollBarWidth = (if hasH then style_int g LISTVIEW SCROLLBAR_WIDTH else 0);
          verticalScrollBarWidth = (if hasV then style_int g LISTVIEW SCROLLBAR_WIDTH else 0);
          left = (style_int g LISTVIEW SCROLLBAR_SIDE = SCROLLBAR_LEFT_SIDE);
          view0 = (if left
                   then \<lparr> rec_x = rec_x bounds + of_int verticalScrollBarWidth + of_int border,
                          rec_y = rec_y bounds + of_int border,
                          rec_width = rec_width bounds - of_int (2*border)
                                        - of_int verticalScrollBarWidth,
                          rec_height = rec_height bounds - of_int (2*border)
                                        - of_int horizontalScrollBarWidth \<rparr>
                   else \<lparr> rec_x = rec_x bounds + of_int border,
                          rec_y = rec_y bounds + of_int border,
                          rec_width = rec_width bounds - of_int (2*border)
                                        - of_int verticalScrollBarWidth,
                          rec_height = rec_height bounds - of_int (2*border)
                                        - of_int horizontalScrollBarWidth \<rparr>);
          view1 = (if rec_width view0 > rec_width content
                   then view0\<lparr>rec_width := rec_width content\<rparr> else view0)
      in if rec_height view1 > rec_height content
         then view1\<lparr>rec_height := rec_height content\<rparr> else view1)"

text \<open>The update of the control: the mouse wheel moves \<^verbatim>\<open>scrollPos\<close> (key input is compiled
  only with \<^verbatim>\<open>SUPPORT_SCROLLBAR_KEY_INPUT\<close>, which the source does not define). The wheel
  speed divides by the size of the bounds; for a width of zero the \<^verbatim>\<open>float\<close> result is an
  infinity or NaN, outside the model: \<open>None\<close>. (The height is at least 23.) The result is
  the state and \<^verbatim>\<open>scrollPos\<close>.\<close>

definition panel_update ::
  "gui \<Rightarrow> Rectangle \<Rightarrow> Rectangle \<Rightarrow> Vector2 \<Rightarrow> input \<Rightarrow> (int \<times> Vector2) option" where
  "panel_update g bounds content scrollPos inp =
     (let state = guiState g;
          (hasH, hasV) = panel_scrollbars g bounds content
      in if state \<noteq> STATE_DISABLED \<and> \<not> guiLocked g
         then (if CheckCollisionPointRec (mousePosition inp) bounds
               then (if rec_width bounds = 0 \<or> rec_height bounds = 0 then None
                     else (let state1 = (if mouseLeftDown inp then STATE_PRESSED
                                         else STATE_FOCUSED);
                               wheelMove = mouseWheelMove inp;
                               sx0 = rec_width content/rec_width bounds;
                               sy0 = rec_height content/rec_height bounds;
                               sx = (if sx0 < RAYGUI_MIN_MOUSE_WHEEL_SPEED
                                     then RAYGUI_MIN_MOUSE_WHEEL_SPEED else sx0);
                               sy = (if sy0 < RAYGUI_MIN_MOUSE_WHEEL_SPEED
                                     then RAYGUI_MIN_MOUSE_WHEEL_SPEED else sy0)
                           in if hasH \<and> (keyLeftControlDown inp \<or> keyLeftShiftDown inp)
                              then Some (state1, scrollPos\<lparr>v2_x := v2_x scrollPos + wheelMove*sx\<rparr>)
                              else Some (state1, scrollPos\<lparr>v2_y := v2_y scrollPos + wheelMove*sy\<rparr>)))
               else Some (state, scrollPos))
         else Some (state, scrollPos))"

text \<open>\<^verbatim>\<open>// Normalize scroll values\<close>\<close>

definition panel_normalize :: "real \<times> real \<times> real \<times> real \<Rightarrow> Vector2 \<Rightarrow> Vector2" where
  "panel_normalize limits scrollPos =
     (let (horizontalMin, horizontalMax, verticalMin, verticalMax) = limits;
          x1 = (if v2_x scrollPos > - horizontalMin then - horizontalMin else v2_x scrollPos);
          x2 = (if x1 < - horizontalMax then - horizontalMax else x1);
          y1 = (if v2_y scrollPos > - verticalMin then - verticalMin else v2_y scrollPos);
          y2 = (if y1 < - verticalMax then - verticalMax else y1)
      in \<lparr> v2_x = x2, v2_y = y2 \<rparr>)"

text \<open>The slider size the panel sets before it draws a scrollbar:
  \<^verbatim>\<open>(int)(((bounds.width - 2*border - verticalScrollBarWidth)/(int)content.width)*((int)bounds.width - 2*border - verticalScrollBarWidth))\<close>,
  with \<open>len\<close> and \<open>contentLength\<close> the sizes along the bar and \<open>other\<close> the width of the
  other scrollbar. The division is a \<^verbatim>\<open>float\<close> division: for \<^verbatim>\<open>(int)content.width\<close> zero the
  result is outside the model.\<close>

definition panel_slider_size :: "real \<Rightarrow> int \<Rightarrow> int \<Rightarrow> real \<Rightarrow> int option" where
  "panel_slider_size len border other contentLength =
     (if trunc_int contentLength = 0 then None
      else Some (trunc_int (((len - of_int (2*border) - of_int other)
                               /of_int (trunc_int contentLength))
                            *of_int (trunc_int len - 2*border - other))))"

text \<open>One axis of the draw section, \<^verbatim>\<open>// Draw horizontal scrollbar if visible\<close> and the
  same for the vertical one: with a scrollbar the slider size is set and \<^verbatim>\<open>GuiScrollBar\<close>
  gives the new position, \<^verbatim>\<open>scrollPos.x = (float)-GuiScrollBar(horizontalScrollBar,
  (int)-scrollPos.x, (int)horizontalMin, (int)horizontalMax)\<close>; without one the position
  is 0. \<open>len\<close> and \<open>contentLength\<close> are the sizes of bounds and content along the axis,
  \<open>other\<close> is the width of the other scrollbar.\<close>

definition panel_scroll_axis ::
  "bool \<Rightarrow> real \<Rightarrow> int \<Rightarrow> real \<Rightarrow> Rectangle \<Rightarrow> real \<Rightarrow> real \<Rightarrow> real \<Rightarrow> input \<Rightarrow> gui
     \<Rightarrow> (real \<times> gui) option" where
  "panel_scroll_axis has len other contentLength bar pos minPos maxPos inp g =
     (if has
      then (case panel_slider_size len (style_int g DEFAULT BORDER_WIDTH) other contentLength of
              None \<Rightarrow> None
            | Some sz \<Rightarrow>
                (case GuiScrollBar bar (trunc_int (- pos)) (trunc_int minPos) (trunc_int maxPos)
                        inp (style_set SCROLLBAR SCROLL_SLIDER_SIZE sz g) of
                   None \<Rightarrow> None
                 | Some (v, st, g1) \<Rightarrow> Some (- of_int v, g1)))
      else Some (0, g))"

text \<open>The result is \<^verbatim>\<open>*scroll\<close>, \<^verbatim>\<open>*view\<close>, the state the panel is drawn in and the
  globals. The slider size of the style is saved before the scrollbars are drawn and set
  back after.\<close>

definition GuiScrollPanel ::
  "Rectangle \<Rightarrow> bool \<Rightarrow> Rectangle \<Rightarrow> Vector2 \<Rightarrow> input \<Rightarrow> gui
     \<Rightarrow> (Vector2 \<times> Rectangle \<times> int \<times> gui) option" where
  "GuiScrollPanel bounds0 hasText content scroll inp g0 =
     (let g = style_loaded g0;
          bounds = panel_bounds bounds0 hasText;
          (hasH, hasV) = panel_scrollbars g bounds content;
          horizontalScrollBarWidth = (if hasH then style_int g LISTVIEW SCROLLBAR_WIDTH else 0);
          verticalScrollBarWidth = (if hasV then style_int g LISTVIEW SCROLLBAR_WIDTH else 0);
          limits = panel_limits g bounds content;
          (horizontalMin, horizontalMax, verticalMin, verticalMax) = limits
      in case panel_update g bounds content scroll inp of
           None \<Rightarrow> None
         | Some (state, scrollPos0) \<Rightarrow>
             (let scrollPos = panel_normalize limits scrollPos0;
                  slider = style_int g SCROLLBAR SCROLL_SLIDER_SIZE
              in case panel_scroll_axis hasH (rec_width bounds) verticalScrollBarWidth
                        (rec_width content) (panel_horizontalScrollBar g bounds content)
                        (v2_x scrollPos) horizontalMin horizontalMax inp g of
                   None \<Rightarrow> None
                 | Some (x, g1) \<Rightarrow>
                     (case panel_scroll_axis hasV (rec_height bounds) horizontalScrollBarWidth
                             (rec_height content) (panel_verticalScrollBar g bounds content)
                             (v2_y scrollPos) verticalMin verticalMax inp g1 of
                        None \<Rightarrow> None
                      | Some (y, g2) \<Rightarrow>
                          Some (\<lparr> v2_x = x, v2_y = y \<rparr>, panel_view g bounds content, state,
                                style_set SCROLLBAR SCROLL_SLIDER_SIZE slider g2))))"

text \<open>The length of the track and of the thumb of a scrollbar, along the bar.\<close>

definition scrollbar_track :: "scrollbar_layout \<Rightarrow> real" where
  "scrollbar_track l =
     (if sl_isVertical l then rec_height (sl_scrollbar l) else rec_width (sl_scrollbar l))"

definition scrollbar_thumb :: "scrollbar_layout \<Rightarrow> real" where
  "scrollbar_thumb l =
     (if sl_isVertical l then rec_height (sl_slider l) else rec_width (sl_slider l))"

text \<open>The default style with the scrollbar of list views and panels moved to the left
  side, \<^verbatim>\<open>GuiSetStyle(LISTVIEW, SCROLLBAR_SIDE, SCROLLBAR_LEFT_SIDE)\<close>; a panel of 100 by
  100 with a content of 200 by 200; a frame where the pointer is away from the panel.\<close>

definition left_side_gui :: gui where
  "left_side_gui =
     style_set LISTVIEW SCROLLBAR_SIDE SCROLLBAR_LEFT_SIDE (GuiLoadStyleDefault gui_init)"

definition panel_100 :: Rectangle where
  "panel_100 = \<lparr> rec_x = 0, rec_y = 0, rec_width = 100, rec_height = 100 \<rparr>"

definition content_200 :: Rectangle where
  "content_200 = \<lparr> rec_x = 0, rec_y = 0, rec_width = 200, rec_height = 200 \<rparr>"

definition idle_input :: input where
  "idle_input = \<lparr> mousePosition = \<lparr> v2_x = 500, v2_y = 500 \<rparr>, mouseLeftDown = False,
                   mouseLeftPressed = False, mouseLeftReleased = False, mouseWheelMove = 0,
                   keyLeftControlDown = False, keyLeftShiftDown = False \<rparr>"

subsection \<open>Text drawing\<close>

text \<open>The font \<^verbatim>\<open>guiFont\<close> and the functions of raylib that the text functions call. raylib
  is not part of this repository, so they are parameters: the base size and the texture id of
  the font, the tables \<^verbatim>\<open>glyphs[i].advanceX\<close> and \<^verbatim>\<open>recs[i].width\<close>, the function
  \<^verbatim>\<open>GetGlyphIndex(guiFont, codepoint)\<close> and the function \<^verbatim>\<open>GetCodepoint(text, &size)\<close>.
  The tables are total here; the C arrays have the length of the font's glyph count.\<close>

record Font =
  baseSize :: int
  texture_id :: int
  glyph_advanceX :: "int \<Rightarrow> int"
  recs_width :: "int \<Rightarrow> real"
  GetGlyphIndex :: "int \<Rightarrow> int"
  GetCodepoint :: "byte list \<Rightarrow> int"

abbreviation (input) RAYGUI_ICON_SIZE :: int where "RAYGUI_ICON_SIZE \<equiv> 16"
abbreviation (input) ICON_TEXT_PADDING :: int where "ICON_TEXT_PADDING \<equiv> 4"
abbreviation (input) MAX_LINE_BUFFER_SIZE :: nat where "MAX_LINE_BUFFER_SIZE \<equiv> 256"
abbreviation (input) RAYGUI_MAX_TEXT_LINES :: nat where "RAYGUI_MAX_TEXT_LINES \<equiv> 128"

text \<open>\<^verbatim>\<open>if (guiFont.glyphs[index].advanceX == 0) glyphWidth = (float)guiFont.recs[index].width*scaleFactor;
  else glyphWidth = (float)guiFont.glyphs[index].advanceX*scaleFactor;\<close>\<close>

definition glyph_width :: "Font \<Rightarrow> real \<Rightarrow> int \<Rightarrow> real" where
  "glyph_width fnt scaleFactor index =
     (if glyph_advanceX fnt index = 0 then recs_width fnt index * scaleFactor
      else of_int (glyph_advanceX fnt index) * scaleFactor)"

text \<open>\<^verbatim>\<open>GetTextWidth\<close>. The scan for a second \<^verbatim>\<open>#\<close> in the first five bytes:
  \<^verbatim>\<open>for (int i = 1; (i < 5) && (text[i] != '\0'); i++) if (text[i] == '#') { textIconOffset = i; break; }\<close>\<close>

function text_icon_offset :: "byte list \<Rightarrow> nat \<Rightarrow> nat" where
  "text_icon_offset text i =
     (if i < 5 \<and> byte_at text i \<noteq> 0
      then (if byte_at text i = 0x23 then i else text_icon_offset text (i + 1))
      else 0)"
  by pat_completeness auto

termination text_icon_offset
  by (relation "measure (\<lambda>(text, i). 5 - i)") auto

declare text_icon_offset.simps [simp del]

text \<open>The measuring loop; \<^verbatim>\<open>i\<close> moves by the size that \<^verbatim>\<open>GetCodepointNext\<close> returns.\<close>

function measure_loop ::
  "Font \<Rightarrow> real \<Rightarrow> int \<Rightarrow> byte list \<Rightarrow> nat \<Rightarrow> nat \<Rightarrow> real \<Rightarrow> real" where
  "measure_loop fnt scaleFactor spacing text sz i x =
     (if i < sz
      then (let (codepoint, codepointSize) = GetCodepointNext (drop i text);
                codepointIndex = GetGlyphIndex fnt codepoint;
                glyphWidth = glyph_width fnt scaleFactor codepointIndex
            in measure_loop fnt scaleFactor spacing text sz (i + codepointSize)
                 (x + (glyphWidth + of_int spacing)))
      else x)"
  by pat_completeness auto

text \<open>The result is \<open>None\<close> where the C code divides by a base size of zero.\<close>

definition GetTextWidth :: "Font \<Rightarrow> gui \<Rightarrow> byte list \<Rightarrow> int option" where
  "GetTextWidth fnt g text0 =
     (if byte_at text0 0 \<noteq> 0
      then (let textIconOffset = (if byte_at text0 0 = 0x23 then text_icon_offset text0 1 else 0);
                text = drop textIconOffset text0;
                fontSize = of_int (style_int g DEFAULT TEXT_SIZE);
                sz = length (takeWhile (\<lambda>b. b \<noteq> 0 \<and> b \<noteq> 0x0A) (take MAX_LINE_BUFFER_SIZE text))
            in if texture_id fnt > 0 \<and> baseSize fnt = 0 then None
               else (let x = (if texture_id fnt > 0
                              then measure_loop fnt (fontSize / of_int (baseSize fnt))
                                     (style_int g DEFAULT TEXT_SPACING) text sz 0 0
                              else 0);
                         x' = (if textIconOffset > 0
                               then x + of_int (RAYGUI_ICON_SIZE + ICON_TEXT_PADDING) else x)
                     in Some (trunc_int x')))
      else Some 0)"

text \<open>\<^verbatim>\<open>GetTextLines\<close>: the lines are pointers into the text, one after each line feed, so
  every line runs to the end of the text; at most \<^verbatim>\<open>RAYGUI_MAX_TEXT_LINES\<close> are found.\<close>

function GetTextLines_loop :: "byte list \<Rightarrow> nat \<Rightarrow> byte list list \<Rightarrow> byte list list" where
  "GetTextLines_loop text i lines =
     (if i < length (c_string text) \<and> length lines < RAYGUI_MAX_TEXT_LINES
      then (if byte_at text i = 0x0A
            then GetTextLines_loop text (i + 1) (lines @ [drop (i + 1) text])
            else GetTextLines_loop text (i + 1) lines)
      else lines)"
  by pat_completeness auto

termination GetTextLines_loop
  by (relation "measure (\<lambda>(text, i, lines). length (c_string text) - i)") auto

declare GetTextLines_loop.simps [simp del]

definition GetTextLines :: "byte list \<Rightarrow> byte list list" where
  "GetTextLines text = GetTextLines_loop text 0 [text]"

text \<open>\<^verbatim>\<open>GetNextSpaceWidth\<close>: the loop moves byte by byte and stops at a space or at the end.
  The index it writes through \<^verbatim>\<open>nextSpaceIndex\<close> is never read by the caller and is left
  out. The scale factor divides by the base size; the caller has divided by it before.\<close>

function GetNextSpaceWidth_loop ::
  "Font \<Rightarrow> real \<Rightarrow> int \<Rightarrow> byte list \<Rightarrow> nat \<Rightarrow> real \<Rightarrow> real" where
  "GetNextSpaceWidth_loop fnt scaleFactor spacing text i width =
     (if byte_at text i \<noteq> 0
      then (if byte_at text i \<noteq> 0x20
            then (let codepoint = GetCodepoint fnt (drop i text);
                      index = GetGlyphIndex fnt codepoint;
                      glyphWidth = glyph_width fnt scaleFactor index
                  in GetNextSpaceWidth_loop fnt scaleFactor spacing text (i + 1)
                       (width + (glyphWidth + of_int spacing)))
            else width)
      else width)"
  by pat_completeness auto

termination GetNextSpaceWidth_loop
  by (relation "measure (\<lambda>(fnt, scaleFactor, spacing, text, i, width). length text - i)")
    (auto simp: byte_at_def split: if_splits)

declare GetNextSpaceWidth_loop.simps [simp del]

definition GetNextSpaceWidth :: "Font \<Rightarrow> gui \<Rightarrow> byte list \<Rightarrow> real" where
  "GetNextSpaceWidth fnt g text =
     GetNextSpaceWidth_loop fnt
       (of_int (style_int g DEFAULT TEXT_SIZE) / of_int (baseSize fnt))
       (style_int g DEFAULT TEXT_SPACING) text 0 0"

text \<open>What \<^verbatim>\<open>GuiDrawText\<close> puts on the screen: the calls of \<^verbatim>\<open>DrawTextCodepoint\<close> (of
  raylib) with the codepoint and the position, and the calls of \<^verbatim>\<open>GuiDrawIcon\<close> with the icon
  id, the position and the pixel size. Font, font size and tint are the same in every call
  and are left out.\<close>

datatype draw =
    DrawTextCodepoint (draw_codepoint: int) (draw_position: Vector2)
  | GuiDrawIcon int int int int

text \<open>The ellipsis loop,
  \<^verbatim>\<open>for (int j = 0; j < ellipsisWidth; j += ellipsisWidth/3) DrawTextCodepoint(guiFont, '.', ...)\<close>,
  as the list of the values of \<^verbatim>\<open>j\<close> at which a dot is drawn. With an ellipsis width of 1
  or 2 the step is 0 and the loop does not end: the result is \<open>None\<close>.\<close>

partial_function (option) ellipsis_loop :: "int \<Rightarrow> int \<Rightarrow> int list option" where
  "ellipsis_loop ellipsisWidth j =
     (if j < ellipsisWidth
      then Option.bind (ellipsis_loop ellipsisWidth (j + c_div ellipsisWidth 3))
             (\<lambda>js. Some (j # js))
      else Some [])"

declare ellipsis_loop.simps [code]

text \<open>\<^verbatim>\<open>#define TEXT_VALIGN_PIXEL_OFFSET(h)  ((int)h%2)\<close>, with the remainder of C.\<close>

definition c_mod :: "int \<Rightarrow> int \<Rightarrow> int" where
  "c_mod a b = a - b * c_div a b"

definition TEXT_VALIGN_PIXEL_OFFSET :: "real \<Rightarrow> int" where
  "TEXT_VALIGN_PIXEL_OFFSET h = c_mod (trunc_int h) 2"

text \<open>The variables of the glyph loop that change from glyph to glyph, with the calls drawn so
  far, and the values that are fixed for a line.\<close>

record glyph_state =
  gs_wrapMode :: int
  gs_lastSpaceIndex :: nat
  gs_tempWrapCharMode :: bool
  gs_textOffsetY :: int
  gs_textOffsetX :: real
  gs_textOverflow :: bool
  gs_drawn :: "draw list"

record line_env =
  le_textBounds :: Rectangle
  le_textBoundsPosition :: Vector2
  le_textBoundsWidthOffset :: real
  le_textSizeX :: int
  le_ellipsisWidth :: int
  le_scaleFactor :: real

text \<open>The wrap mode block of the loop body: in the modes \<^verbatim>\<open>TEXT_WRAP_CHAR\<close> and
  \<^verbatim>\<open>TEXT_WRAP_WORD\<close> it may start a new line and switch between the two modes.\<close>

definition wrap_measure ::
  "Font \<Rightarrow> gui \<Rightarrow> line_env \<Rightarrow> byte list \<Rightarrow> nat \<Rightarrow> int \<Rightarrow> real \<Rightarrow> glyph_state \<Rightarrow> glyph_state" where
  "wrap_measure fnt g env line c codepoint glyphWidth st =
     (let avail = rec_width (le_textBounds env) - le_textBoundsWidthOffset env
      in if gs_wrapMode st = TEXT_WRAP_CHAR
         then (if gs_textOffsetX st + glyphWidth > avail
               then (let st1 = st \<lparr> gs_textOffsetX := 0,
                                     gs_textOffsetY := gs_textOffsetY st
                                        + style_int g DEFAULT TEXT_LINE_SPACING \<rparr>
                     in if gs_tempWrapCharMode st1
                        then st1 \<lparr> gs_wrapMode := TEXT_WRAP_WORD, gs_tempWrapCharMode := False \<rparr>
                        else st1)
               else st)
         else if gs_wrapMode st = TEXT_WRAP_WORD
         then (let st1 = (if codepoint = 32 then st \<lparr> gs_lastSpaceIndex := c \<rparr> else st);
                   nextSpaceWidth = GetNextSpaceWidth fnt g (drop c line);
                   nextWordSize = GetNextSpaceWidth fnt g (drop (gs_lastSpaceIndex st1 + 1) line)
               in if nextWordSize > avail
                  then st1 \<lparr> gs_tempWrapCharMode := True, gs_wrapMode := TEXT_WRAP_CHAR \<rparr>
                  else if gs_textOffsetX st1 + nextSpaceWidth > avail
                  then st1 \<lparr> gs_textOffsetX := 0,
                             gs_textOffsetY := gs_textOffsetY st1
                                + style_int g DEFAULT TEXT_LINE_SPACING \<rparr>
                  else st1)
         else st)"

text \<open>The drawing block of the loop body, for a codepoint other than a line feed.\<close>

definition draw_glyph :: "gui \<Rightarrow> line_env \<Rightarrow> int \<Rightarrow> real \<Rightarrow> glyph_state \<Rightarrow> glyph_state option" where
  "draw_glyph g env codepoint glyphWidth st =
     (let position = \<lparr> v2_x = v2_x (le_textBoundsPosition env) + gs_textOffsetX st,
                        v2_y = v2_y (le_textBoundsPosition env) + of_int (gs_textOffsetY st) \<rparr>;
          drawGlyph = st \<lparr> gs_drawn := gs_drawn st @ [DrawTextCodepoint codepoint position] \<rparr>
      in if codepoint \<noteq> 0x20 \<and> codepoint \<noteq> 0x09
         then (if gs_wrapMode st = TEXT_WRAP_NONE
               then (if of_int (le_textSizeX env) > rec_width (le_textBounds env)
                     then (if gs_textOffsetX st
                                \<le> rec_width (le_textBounds env) - glyphWidth
                                    - le_textBoundsWidthOffset env - of_int (le_ellipsisWidth env)
                           then Some drawGlyph
                           else if \<not> gs_textOverflow st
                           then (case ellipsis_loop (le_ellipsisWidth env) 0 of
                                   None \<Rightarrow> None
                                 | Some js \<Rightarrow>
                                     Some (st \<lparr> gs_textOverflow := True,
                                        gs_drawn := gs_drawn st @
                                          map (\<lambda>j. DrawTextCodepoint 0x2E
                                                 (position \<lparr> v2_x := v2_x position + of_int j \<rparr>))
                                            js \<rparr>))
                           else Some st)
                     else Some drawGlyph)
               else if gs_wrapMode st = TEXT_WRAP_CHAR \<or> gs_wrapMode st = TEXT_WRAP_WORD
               then (if v2_y position
                          \<le> rec_y (le_textBounds env) + rec_height (le_textBounds env)
                              - of_int (style_int g DEFAULT TEXT_SIZE)
                     then Some drawGlyph else Some st)
               else Some st)
         else Some st)"

text \<open>The glyph loop of a line, from the cursor \<^verbatim>\<open>c\<close>.\<close>

function glyph_loop ::
  "Font \<Rightarrow> gui \<Rightarrow> line_env \<Rightarrow> byte list \<Rightarrow> nat \<Rightarrow> nat \<Rightarrow> glyph_state \<Rightarrow> glyph_state option" where
  "glyph_loop fnt g env line lineSize c st =
     (if c < lineSize
      then (let codepoint = fst (GetCodepointNext (drop c line));
                index = GetGlyphIndex fnt codepoint;
                codepointSize = cursor_step (drop c line);
                glyphWidth = glyph_width fnt (le_scaleFactor env) index;
                st1 = wrap_measure fnt g env line c codepoint glyphWidth st
            in if codepoint = 0x0A then Some st1
               else (case draw_glyph g env codepoint glyphWidth st1 of
                       None \<Rightarrow> None
                     | Some st2 \<Rightarrow>
                         glyph_loop fnt g env line lineSize (c + codepointSize)
                           (st2 \<lparr> gs_textOffsetX := gs_textOffsetX st2
                                   + (glyphWidth + of_int (style_int g DEFAULT TEXT_SPACING)) \<rparr>)))
      else Some st)"
  by pat_completeness auto

text \<open>The position of a line in the bounds, by the horizontal alignment given and the
  vertical alignment of the style, at whole pixels: \<^verbatim>\<open>textBoundsPosition\<close> before an icon
  moves it. A text that is wider than the bounds starts at their left edge.\<close>

definition line_position ::
  "gui \<Rightarrow> Rectangle \<Rightarrow> int \<Rightarrow> real \<Rightarrow> real \<Rightarrow> int \<Rightarrow> byte list \<Rightarrow> Vector2" where
  "line_position g textBounds alignment posOffsetY totalHeight textSizeX line =
     (let x0 = (if alignment = TEXT_ALIGN_LEFT then rec_x textBounds
                else if alignment = TEXT_ALIGN_CENTER
                then rec_x textBounds + rec_width textBounds / 2 - of_int (c_div textSizeX 2)
                else if alignment = TEXT_ALIGN_RIGHT
                then rec_x textBounds + rec_width textBounds - of_int textSizeX
                else rec_x textBounds);
          x1 = (if of_int textSizeX > rec_width textBounds \<and> byte_at line 0 \<noteq> 0
                then rec_x textBounds else x0);
          alignmentVertical = style_int g DEFAULT TEXT_ALIGNMENT_VERTICAL;
          y1 = (if alignmentVertical = TEXT_ALIGN_TOP then rec_y textBounds + posOffsetY
                else if alignmentVertical = TEXT_ALIGN_MIDDLE
                then rec_y textBounds + posOffsetY + rec_height textBounds / 2
                       - totalHeight / 2
                       + of_int (TEXT_VALIGN_PIXEL_OFFSET (rec_height textBounds))
                else if alignmentVertical = TEXT_ALIGN_BOTTOM
                then rec_y textBounds + posOffsetY + rec_height textBounds - totalHeight
                       + of_int (TEXT_VALIGN_PIXEL_OFFSET (rec_height textBounds))
                else rec_y textBounds)
      in \<lparr> v2_x = of_int (trunc_int x1), v2_y = of_int (trunc_int y1) \<rparr>)"

text \<open>The vertical position of the icon of a line, the third argument of
  \<^verbatim>\<open>GuiDrawIcon\<close>. \<^verbatim>\<open>guiIconScale\<close> is a global of the icons module, an unsigned number,
  and a parameter here.\<close>

definition icon_position_y :: "Rectangle \<Rightarrow> nat \<Rightarrow> int" where
  "icon_position_y textBounds guiIconScale =
     trunc_int (rec_y textBounds + rec_height textBounds / 2
                  - of_int (RAYGUI_ICON_SIZE * int guiIconScale div 2)
                  + of_int (TEXT_VALIGN_PIXEL_OFFSET (rec_height textBounds)))"

text \<open>The body of the line loop of \<^verbatim>\<open>GuiDrawText\<close> for the line \<^verbatim>\<open>lines[i]\<close>. The wrap mode,
  \<^verbatim>\<open>posOffsetY\<close> and the calls drawn so far go from line to line. The result is \<open>None\<close>
  where the C code divides by a base size of zero or the ellipsis loop does not end.\<close>

definition GuiDrawText_line ::
  "Font \<Rightarrow> nat \<Rightarrow> gui \<Rightarrow> Rectangle \<Rightarrow> int \<Rightarrow> real \<Rightarrow> byte list
     \<Rightarrow> int \<times> real \<times> draw list \<Rightarrow> (int \<times> real \<times> draw list) option" where
  "GuiDrawText_line fnt guiIconScale g textBounds alignment totalHeight line0 acc =
     (let (wrapMode, posOffsetY, drawn) = acc;
          (line, iconId) = GetTextIcon line0;
          iconSize = RAYGUI_ICON_SIZE * int guiIconScale
      in Option.bind (GetTextWidth fnt g line) (\<lambda>textWidth.
      (let textSizeX = (if iconId \<ge> 0
                        then textWidth + iconSize
                               + (if byte_at line 0 \<noteq> 0 then ICON_TEXT_PADDING else 0)
                        else textWidth);
           position = line_position g textBounds alignment posOffsetY totalHeight textSizeX line;
           drawn1 = (if iconId \<ge> 0
                     then drawn @ [GuiDrawIcon iconId (trunc_int (v2_x position))
                                     (icon_position_y textBounds guiIconScale)
                                     (int guiIconScale)]
                     else drawn);
           textBoundsPosition =
             (if iconId \<ge> 0
              then position \<lparr> v2_x := v2_x position + of_int (iconSize + ICON_TEXT_PADDING) \<rparr>
              else position);
           textBoundsWidthOffset =
             (if iconId \<ge> 0 then of_int (iconSize + ICON_TEXT_PADDING) else 0);
           lineSize = length (takeWhile (\<lambda>b. b \<noteq> 0 \<and> b \<noteq> 0x0A \<and> b \<noteq> 0x0D) line)
       in if baseSize fnt = 0 then None
          else Option.bind (GetTextWidth fnt g [0x2E, 0x2E, 0x2E]) (\<lambda>ellipsisWidth.
                 map_option
                   (\<lambda>st. (gs_wrapMode st,
                          (if gs_wrapMode st = TEXT_WRAP_NONE
                           then posOffsetY + of_int (style_int g DEFAULT TEXT_LINE_SPACING)
                           else if gs_wrapMode st = TEXT_WRAP_CHAR
                                 \<or> gs_wrapMode st = TEXT_WRAP_WORD
                           then posOffsetY + (of_int (gs_textOffsetY st)
                                  + of_int (style_int g DEFAULT TEXT_LINE_SPACING))
                           else posOffsetY),
                          gs_drawn st))
                   (glyph_loop fnt g
                      \<lparr> le_textBounds = textBounds,
                         le_textBoundsPosition = textBoundsPosition,
                         le_textBoundsWidthOffset = textBoundsWidthOffset,
                         le_textSizeX = textSizeX,
                         le_ellipsisWidth = ellipsisWidth,
                         le_scaleFactor = of_int (style_int g DEFAULT TEXT_SIZE)
                                            / of_int (baseSize fnt) \<rparr>
                      line lineSize 0
                      \<lparr> gs_wrapMode = wrapMode, gs_lastSpaceIndex = 0,
                         gs_tempWrapCharMode = False, gs_textOffsetY = 0,
                         gs_textOffsetX = 0, gs_textOverflow = False,
                         gs_drawn = drawn1 \<rparr>)))))"

text \<open>The line loop.\<close>

fun GuiDrawText_lines ::
  "Font \<Rightarrow> nat \<Rightarrow> gui \<Rightarrow> Rectangle \<Rightarrow> int \<Rightarrow> real \<Rightarrow> byte list list
     \<Rightarrow> int \<times> real \<times> draw list \<Rightarrow> (int \<times> real \<times> draw list) option" where
  "GuiDrawText_lines fnt guiIconScale g textBounds alignment totalHeight [] acc = Some acc"
| "GuiDrawText_lines fnt guiIconScale g textBounds alignment totalHeight (line # lines) acc =
     Option.bind (GuiDrawText_line fnt guiIconScale g textBounds alignment totalHeight line acc)
       (GuiDrawText_lines fnt guiIconScale g textBounds alignment totalHeight lines)"

text \<open>\<^verbatim>\<open>GuiDrawText\<close>, as the list of the calls it draws with. Of the globals it changes
  only the style, which the first \<^verbatim>\<open>GuiGetStyle\<close> loads when it is not loaded.\<close>

definition GuiDrawText ::
  "Font \<Rightarrow> nat \<Rightarrow> byte list \<Rightarrow> Rectangle \<Rightarrow> int \<Rightarrow> gui \<Rightarrow> draw list option" where
  "GuiDrawText fnt guiIconScale text textBounds alignment g0 =
     (if byte_at text 0 = 0 then Some []
      else (let lines = GetTextLines text;
                lineCount = int (length lines);
                g = style_loaded g0;
                wrapMode = style_int g DEFAULT TEXT_WRAP_MODE;
                totalHeight = of_int (lineCount * style_int g DEFAULT TEXT_SIZE
                                + c_div ((lineCount - 1) * style_int g DEFAULT TEXT_SIZE) 2)
            in map_option (\<lambda>(wrapMode, posOffsetY, drawn). drawn)
                 (GuiDrawText_lines fnt guiIconScale g textBounds alignment totalHeight lines
                    (wrapMode, 0, []))))"

text \<open>A font in which every glyph is 5 wide, with the default style (text size 10, spacing
  1), so that a glyph advances the text by 6 and the ellipsis is 18 wide; and the text of an
  \<^verbatim>\<open>a\<close> and five spaces, which measures 36, in bounds that are 30 wide.\<close>

definition fixed_font :: Font where
  "fixed_font = \<lparr> baseSize = 10, texture_id = 1, glyph_advanceX = (\<lambda>i. 0),
                   recs_width = (\<lambda>i. 5), GetGlyphIndex = (\<lambda>codepoint. codepoint - 32),
                   GetCodepoint = (\<lambda>ptr. fst (GetCodepointNext ptr)) \<rparr>"

definition bounds_30 :: Rectangle where
  "bounds_30 = \<lparr> rec_x = 0, rec_y = 0, rec_width = 30, rec_height = 20 \<rparr>"

definition text_abcdef :: "byte list" where
  "text_abcdef = [0x61, 0x62, 0x63, 0x64, 0x65, 0x66]"

definition text_a_blanks :: "byte list" where
  "text_a_blanks = [0x61, 0x20, 0x20, 0x20, 0x20, 0x20]"

definition text_blanks_ab :: "byte list" where
  "text_blanks_ab = [0x20, 0x20, 0x20, 0x20, 0x20, 0x20, 0x61, 0x62]"

text \<open>The advance of \<^verbatim>\<open>textOffsetX\<close> at the end of the loop body for the glyph at the cursor
  \<^verbatim>\<open>c\<close>: the glyph width and the text spacing.\<close>

definition glyph_advance :: "Font \<Rightarrow> gui \<Rightarrow> line_env \<Rightarrow> byte list \<Rightarrow> nat \<Rightarrow> real" where
  "glyph_advance fnt g env line c =
     glyph_width fnt (le_scaleFactor env) (GetGlyphIndex fnt (fst (GetCodepointNext (drop c line))))
       + of_int (style_int g DEFAULT TEXT_SPACING)"

section \<open>Properties\<close>

subsection \<open>Gui setup functions\<close>

text \<open>
  C10. \<^verbatim>\<open>GuiDisable\<close> moves the global state to \<^verbatim>\<open>STATE_DISABLED\<close> only from
  \<^verbatim>\<open>STATE_NORMAL\<close>, \<^verbatim>\<open>GuiEnable\<close> moves it to \<^verbatim>\<open>STATE_NORMAL\<close> only from
  \<^verbatim>\<open>STATE_DISABLED\<close>, and both leave every other state alone, in particular a state
  forced with \<^verbatim>\<open>GuiSetState\<close> such as \<^verbatim>\<open>STATE_FOCUSED\<close> or \<^verbatim>\<open>STATE_PRESSED\<close>.
\<close>

theorem enable_disable_preserve_forced:
  "(guiState g = STATE_NORMAL \<longrightarrow> guiState (GuiDisable g) = STATE_DISABLED) \<and>
   (guiState g \<noteq> STATE_NORMAL \<longrightarrow> GuiDisable g = g) \<and>
   (guiState g = STATE_DISABLED \<longrightarrow> guiState (GuiEnable g) = STATE_NORMAL) \<and>
   (guiState g \<noteq> STATE_DISABLED \<longrightarrow> GuiEnable g = g) \<and>
   (s \<noteq> STATE_NORMAL \<and> s \<noteq> STATE_DISABLED \<longrightarrow>
      GuiGetState (GuiDisable (GuiSetState s g)) = s \<and>
      GuiGetState (GuiEnable (GuiSetState s g)) = s)"
  by (simp add: GuiDisable_def GuiEnable_def GuiSetState_def GuiGetState_def)

theorem enable_disable_preserve_forced_witness:
  "guiState (GuiDisable gui_init) = STATE_DISABLED \<and>
   GuiEnable gui_init = gui_init \<and>
   guiState (GuiEnable (GuiSetState STATE_DISABLED gui_init)) = STATE_NORMAL \<and>
   GuiDisable (GuiSetState STATE_DISABLED gui_init) = GuiSetState STATE_DISABLED gui_init \<and>
   GuiGetState (GuiDisable (GuiSetState STATE_FOCUSED gui_init)) = STATE_FOCUSED \<and>
   GuiGetState (GuiEnable (GuiSetState STATE_PRESSED gui_init)) = STATE_PRESSED"
  using enable_disable_preserve_forced [of gui_init STATE_FOCUSED]
    enable_disable_preserve_forced [of "GuiSetState STATE_DISABLED gui_init" STATE_PRESSED]
  by (simp add: gui_init_def GuiSetState_def)

text \<open>
  C9, as the code has it. For every argument other than NaN, the infinities included,
  \<^verbatim>\<open>GuiSetAlpha\<close> stores a number in \<open>[0, 1]\<close>: the argument when it lies in \<open>[0, 1]\<close>, 0 for
  an argument below 0 and 1 for an argument above 1. For NaN both comparisons are false and
  NaN is stored.
\<close>

theorem GuiSetAlpha_clamps:
  "(a \<noteq> NaN \<longrightarrow> (\<exists>r. guiAlpha (GuiSetAlpha a g) = Num r \<and> 0 \<le> r \<and> r \<le> 1)) \<and>
   (0 \<le> r \<and> r \<le> 1 \<longrightarrow> guiAlpha (GuiSetAlpha (Num r) g) = Num r) \<and>
   (f_less a (Num 0) \<longrightarrow> guiAlpha (GuiSetAlpha a g) = Num 0) \<and>
   (f_less (Num 1) a \<longrightarrow> guiAlpha (GuiSetAlpha a g) = Num 1) \<and>
   guiAlpha (GuiSetAlpha NaN g) = NaN"
  by (cases a) (auto simp: GuiSetAlpha_def Let_def)

theorem GuiSetAlpha_clamps_witness:
  "guiAlpha (GuiSetAlpha (Num (1/2)) gui_init) = Num (1/2) \<and>
   guiAlpha (GuiSetAlpha (Num (-3)) gui_init) = Num 0 \<and>
   guiAlpha (GuiSetAlpha (Num 7) gui_init) = Num 1 \<and>
   guiAlpha (GuiSetAlpha NInf gui_init) = Num 0 \<and>
   guiAlpha (GuiSetAlpha PInf gui_init) = Num 1"
  using GuiSetAlpha_clamps [of "Num (1/2)" gui_init "1/2"]
    GuiSetAlpha_clamps [of "Num (-3)" gui_init 0] GuiSetAlpha_clamps [of "Num 7" gui_init 0]
    GuiSetAlpha_clamps [of NInf gui_init 0] GuiSetAlpha_clamps [of PInf gui_init 0]
  by simp

text \<open>
  C9, as the claim states it, fails for NaN: the stored alpha is NaN, which is not a
  number of \<open>[0, 1]\<close>.
\<close>

theorem GuiSetAlpha_nan_counterexample:
  "guiAlpha (GuiSetAlpha NaN gui_init) = NaN \<and>
   guiAlpha (GuiSetAlpha NaN gui_init) \<notin> Num ` {0..1}"
  by (auto simp: GuiSetAlpha_def Let_def)

subsection \<open>The style table\<close>

lemma fold_upd_same:
  "fold (\<lambda>i s. s(f i := v)) xs st k = (if k \<in> f ` set xs then v else st k)"
  by (induction xs arbitrary: st) auto

lemma style_index_24: "style_index c p = 24 * c + p"
  by (simp add: style_index_def)

lemma style_index_inj:
  assumes "0 \<le> p" "p < 24" "0 \<le> p'" "p' < 24"
  shows "style_index c p = style_index c' p' \<longleftrightarrow> c = c' \<and> p = p'"
proof -
  consider "c < c'" | "c' < c" | "c = c'" by linarith
  then show ?thesis
    using assms unfolding style_index_24 by cases auto
qed

lemma style_in_bounds_ids:
  "0 \<le> c \<Longrightarrow> c < 16 \<Longrightarrow> 0 \<le> p \<Longrightarrow> p < 24 \<Longrightarrow> style_in_bounds c p"
  unfolding style_in_bounds_def style_index_24 by simp

lemma style_store_apply:
  "style_store c' p' w st k =
     (if c' = 0 \<and> p' < 16 \<and> k \<in> (\<lambda>i. style_index i p') ` {1..15} then w
      else (st(style_index c' p' := w)) k)"
proof (cases "c' = 0 \<and> p' < 16")
  case True
  have e: "(16::int) - 1 = 15" by simp
  have "style_store c' p' w st k =
          fold (\<lambda>i s. s(style_index i p' := w)) [1..15] (st(style_index c' p' := w)) k"
    unfolding style_store_def Let_def e by (simp only: True if_True simp_thms)
  also have "\<dots> = (if k \<in> (\<lambda>i. style_index i p') ` {1..15} then w
                     else (st(style_index c' p' := w)) k)"
    by (simp only: fold_upd_same set_upto)
  finally show ?thesis by (simp only: True simp_thms)
next
  case False
  have "style_store c' p' w st k = (st(style_index c' p' := w)) k"
    unfolding style_store_def Let_def by (simp only: False if_False)
  then show ?thesis using False by presburger
qed

lemma style_store_slot:
  assumes "0 < c" "c < 16" "0 \<le> p" "p < 16" "0 \<le> p'" "p' < 24"
  shows "style_store c' p' w st (style_index c p) =
           (if p' = p \<and> (c' = c \<or> c' = 0) then w else st (style_index c p))"
proof -
  have inj: "\<And>i. style_index c p = style_index i p' \<longleftrightarrow> c = i \<and> p = p'"
    using assms style_index_inj [of p p' c] by simp
  have mem: "style_index c p \<in> (\<lambda>i. style_index i p') ` {1..15} \<longleftrightarrow> p = p'"
    using assms(1,2) unfolding image_iff inj by auto
  have "style_store c' p' w st (style_index c p) =
          (if c' = 0 \<and> p' < 16 \<and> p = p' then w
           else if c = c' \<and> p = p' then w else st (style_index c p))"
    unfolding style_store_apply mem by (simp add: inj)
  then show ?thesis
    using assms(1,4) by auto
qed

lemma GuiSetStyle_loaded:
  assumes "guiStyleLoaded g" "style_in_bounds c' p'"
  shows "GuiSetStyle c' p' w g = Some (g\<lparr>guiStyle := style_store c' p' w (guiStyle g)\<rparr>)"
  using assms by (simp add: GuiSetStyle_def style_loaded_def)

lemma style_loaded_flag: "guiStyleLoaded (style_loaded g)"
  by (simp add: style_loaded_def GuiLoadStyleDefault_def)

lemma GuiGetStyle_loaded:
  assumes "guiStyleLoaded g" "style_in_bounds c p"
  shows "GuiGetStyle c p g = Some (guiStyle g (style_index c p), g)"
  using assms by (simp add: GuiGetStyle_def style_loaded_def)

lemma GuiSetStyle_all_slot:
  assumes "0 < c" "c < 16" "0 \<le> p" "p < 16"
  shows "guiStyleLoaded g \<Longrightarrow> list_all style_ids_ok ws \<Longrightarrow>
         \<exists>g'. GuiSetStyle_all ws g = Some g' \<and> guiStyleLoaded g' \<and>
              guiStyle g' (style_index c p) = last_write c p ws (guiStyle g (style_index c p))"
proof (induction ws arbitrary: g)
  case Nil
  then show ?case by (simp add: last_write_def)
next
  case (Cons a ws)
  obtain c' p' w where a: "a = (c', p', w)" by (cases a)
  from Cons.prems a have ids: "0 \<le> c'" "c' < 16" "0 \<le> p'" "p' < 24" and rest: "list_all style_ids_ok ws"
    by (simp_all add: style_ids_ok_def)
  let ?g1 = "g\<lparr>guiStyle := style_store c' p' w (guiStyle g)\<rparr>"
  have step: "GuiSetStyle c' p' w g = Some ?g1"
    using Cons.prems(1) ids by (simp add: GuiSetStyle_loaded style_in_bounds_ids)
  have "guiStyleLoaded ?g1" using Cons.prems(1) by simp
  from Cons.IH [OF this rest] obtain g' where
    g': "GuiSetStyle_all ws ?g1 = Some g'" "guiStyleLoaded g'"
        "guiStyle g' (style_index c p) = last_write c p ws (guiStyle ?g1 (style_index c p))"
    by blast
  have "guiStyle ?g1 (style_index c p) =
          (if p' = p \<and> (c' = c \<or> c' = 0) then w else guiStyle g (style_index c p))"
    using style_store_slot [OF assms ids(3,4)] by simp
  with g' step a show ?case
    by (auto simp: last_write_def)
qed

text \<open>
  C1. Override ordering of the style table. Let \<open>c\<close> be a control other than
  \<^verbatim>\<open>DEFAULT\<close> and \<open>p\<close> a base property. After \<^verbatim>\<open>GuiSetStyle(DEFAULT, p, v)\<close> and any
  further calls \<open>ws\<close> with ids in range, \<^verbatim>\<open>GuiGetStyle(c, p)\<close> returns the value of the
  last call in \<open>ws\<close> on \<open>(c, p)\<close> or on \<open>(DEFAULT, p)\<close>, and \<open>v\<close> when \<open>ws\<close> has none:
  the \<^verbatim>\<open>DEFAULT\<close> write reaches every control, a later write on the control replaces it
  and stays until the next \<^verbatim>\<open>DEFAULT\<close> write.
\<close>

theorem style_override_ordering:
  assumes "0 < c" "c < RAYGUI_MAX_CONTROLS" "0 \<le> p" "p < RAYGUI_MAX_PROPS_BASE"
    and "list_all style_ids_ok ws"
  shows "\<exists>g'. GuiSetStyle_all ((DEFAULT, p, v) # ws) g = Some g' \<and>
              GuiGetStyle c p g' = Some (last_write c p ws v, g')"
proof -
  let ?g0 = "style_loaded g"
  let ?g1 = "?g0\<lparr>guiStyle := style_store 0 p v (guiStyle ?g0)\<rparr>"
  have b0: "style_in_bounds 0 p" using assms by (simp add: style_in_bounds_ids)
  have s1: "GuiSetStyle 0 p v g = Some ?g1"
    using b0 by (simp add: GuiSetStyle_def Let_def)
  have l1: "guiStyleLoaded ?g1" by (simp add: style_loaded_flag)
  have v1: "guiStyle ?g1 (style_index c p) = v"
    using style_store_slot [OF assms(1-4), of p 0 v] assms by simp
  from GuiSetStyle_all_slot [OF assms(1-4) l1 assms(5)] v1 obtain g' where
    g': "GuiSetStyle_all ws ?g1 = Some g'" "guiStyleLoaded g'"
        "guiStyle g' (style_index c p) = last_write c p ws v"
    by auto
  have "GuiGetStyle c p g' = Some (last_write c p ws v, g')"
    using g' assms by (simp add: GuiGetStyle_loaded style_in_bounds_ids)
  with s1 g' show ?thesis by simp
qed

theorem style_override_ordering_witness:
  "\<exists>g'. GuiSetStyle_all [(DEFAULT, BORDER_WIDTH, 2), (BUTTON, BORDER_WIDTH, 4)] gui_init = Some g' \<and>
        GuiGetStyle BUTTON BORDER_WIDTH g' = Some (4, g') \<and>
        GuiGetStyle LABEL BORDER_WIDTH g' = Some (2, g')"
  using style_override_ordering [of BUTTON BORDER_WIDTH "[(BUTTON, BORDER_WIDTH, 4)]" 2 gui_init]
    style_override_ordering [of LABEL BORDER_WIDTH "[(BUTTON, BORDER_WIDTH, 4)]" 2 gui_init]
  by (auto simp: style_ids_ok_def last_write_def simp del: GuiSetStyle_all.simps)

subsection \<open>Icon markers\<close>

lemma is_digit_nonzero: "is_digit b \<Longrightarrow> b \<noteq> 0"
  by (auto simp: is_digit_def)

lemma is_digit_not_sign: "is_digit b \<Longrightarrow> b \<noteq> 0x2B \<and> b \<noteq> 0x2D \<and> b \<noteq> 0x23"
  by (auto simp: is_digit_def)

lemma digits_value_decimal:
  "list_all is_digit ds \<Longrightarrow> digits_value ds v = fold (\<lambda>d v. 10*v + (uint d - 0x30)) ds v"
  by (induction ds arbitrary: v) (simp_all add: mult.commute)

lemma TextToInteger_digits:
  assumes "list_all is_digit ds"
  shows "TextToInteger ds = decimal ds"
proof (cases ds)
  case Nil
  then show ?thesis by (simp add: TextToInteger_def decimal_def byte_at_def)
next
  case (Cons d ds')
  with assms have "is_digit d" by simp
  then have "byte_at ds 0 \<noteq> 0x2B \<and> byte_at ds 0 \<noteq> 0x2D"
    using Cons is_digit_not_sign by (simp add: byte_at_def)
  then show ?thesis
    using digits_value_decimal [OF assms] by (simp add: TextToInteger_def decimal_def)
qed

lemma decimal_nonneg_aux:
  "list_all is_digit ds \<Longrightarrow> 0 \<le> v \<Longrightarrow> 0 \<le> fold (\<lambda>d v. 10*v + (uint d - 0x30)) ds v"
proof (induction ds arbitrary: v)
  case Nil
  then show ?case by simp
next
  case (Cons d ds)
  from Cons.prems have "0x30 \<le> uint d"
    by (simp add: is_digit_def word_le_def)
  with Cons.prems have "0 \<le> 10*v + (uint d - 0x30)" by simp
  with Cons show ?case by simp
qed

lemma decimal_nonneg: "list_all is_digit ds \<Longrightarrow> 0 \<le> decimal ds"
  unfolding decimal_def by (rule decimal_nonneg_aux) simp_all

lemma short_list_cases:
  assumes "length ds \<le> 3"
  obtains "ds = []" | a where "ds = [a]" | a b where "ds = [a, b]" | a b c where "ds = [a, b, c]"
proof (cases ds)
  case Nil
  then show ?thesis using that by simp
next
  case (Cons a t1)
  show ?thesis
  proof (cases t1)
    case Nil
    with Cons show ?thesis using that by simp
  next
    case (Cons b t2)
    note c2 = this
    show ?thesis
    proof (cases t2)
      case Nil
      with c2 \<open>ds = a # t1\<close> show ?thesis using that by simp
    next
      case (Cons c t3)
      with c2 \<open>ds = a # t1\<close> assms have "ds = [a, b, c]" by simp
      then show ?thesis using that by simp
    qed
  qed
qed

lemma icon_scan_marker:
  assumes "length ds \<le> 3" "list_all is_digit ds"
  shows "icon_scan (0x23 # ds @ 0x23 # rest) 1 [0, 0, 0, 0] =
           (length ds + 1, ds @ replicate (4 - length ds) 0)"
proof -
  have nd: "\<not> is_digit 0x23" by (simp add: is_digit_def)
  from assms(1) show ?thesis
  proof (cases ds rule: short_list_cases)
    case 1
    then show ?thesis
      by (simp add: icon_scan.simps byte_at_def nd eval_nat_numeral)
  next
    case (2 a)
    with assms(2) show ?thesis
      by (simp add: icon_scan.simps byte_at_def nd eval_nat_numeral)
  next
    case (3 a b)
    with assms(2) show ?thesis
      by (simp add: icon_scan.simps byte_at_def nd eval_nat_numeral)
  next
    case (4 a b c)
    with assms(2) show ?thesis
      by (simp add: icon_scan.simps byte_at_def nd eval_nat_numeral)
  qed
qed

lemma c_string_digits:
  "list_all is_digit ds \<Longrightarrow> c_string (ds @ replicate n 0) = ds"
  unfolding c_string_def
  by (induction ds) (auto simp: is_digit_nonzero takeWhile_eq_Nil_iff dest: hd_in_set)

lemma GetTextIcon_marker_found:
  assumes "length ds \<le> 3" "list_all is_digit ds"
  shows "GetTextIcon (0x23 # ds @ 0x23 # rest) = (rest, decimal ds)"
proof -
  have n: "byte_at (0x23 # ds @ 0x23 # rest) (length ds + 1) = 0x23"
    by (simp add: byte_at_def nth_append)
  have "byte_at (0x23 # ds @ 0x23 # rest) 0 = 0x23" by (simp add: byte_at_def)
  then show ?thesis
    unfolding GetTextIcon_def
    using icon_scan_marker [OF assms, of rest] n decimal_nonneg [OF assms(2)]
    by (simp add: c_string_digits [OF assms(2)] TextToInteger_digits [OF assms(2)])
qed

lemma icon_scan_result:
  "icon_scan text pos buf = (pos', buf') \<Longrightarrow> pos \<le> 4 \<Longrightarrow>
   pos \<le> pos' \<and> pos' \<le> 4 \<and> (\<forall>i. pos \<le> i \<and> i < pos' \<longrightarrow> is_digit (byte_at text i))"
proof (induction "text" pos buf rule: icon_scan.induct)
  case (1 tx pos iconValue)
  show ?case
  proof (cases "pos < 4 \<and> is_digit (byte_at tx pos)")
    case True
    then have "icon_scan tx (pos + 1) (iconValue[pos - 1 := byte_at tx pos]) = (pos', buf')"
      using "1.prems"(1) by (simp add: icon_scan.simps [of tx pos])
    from "1.IH" [OF True this] True
    have "pos + 1 \<le> pos'" "pos' \<le> 4"
      and d: "\<forall>i. pos + 1 \<le> i \<and> i < pos' \<longrightarrow> is_digit (byte_at tx i)"
      by auto
    have "is_digit (byte_at tx i)" if "pos \<le> i" "i < pos'" for i
      using that d True by (cases "i = pos") auto
    with \<open>pos + 1 \<le> pos'\<close> \<open>pos' \<le> 4\<close> show ?thesis by auto
  next
    case False
    then have "pos' = pos" using "1.prems"(1) by (auto simp add: icon_scan.simps [of tx pos])
    with "1.prems"(2) show ?thesis by auto
  qed
qed

lemma GetTextIcon_no_marker:
  assumes "\<nexists>ds rest. text = 0x23 # ds @ 0x23 # rest \<and> length ds \<le> 3 \<and> list_all is_digit ds"
  shows "GetTextIcon text = (text, -1)"
proof (rule ccontr)
  assume neq: "GetTextIcon text \<noteq> (text, -1)"
  then have h0: "byte_at text 0 = 0x23"
    by (auto simp: GetTextIcon_def split: if_splits)
  obtain pos buf where sc: "icon_scan text 1 [0, 0, 0, 0] = (pos, buf)"
    by (cases "icon_scan text 1 [0, 0, 0, 0]")
  from neq h0 sc have hp: "byte_at text pos = 0x23"
    by (auto simp: GetTextIcon_def split: if_splits)
  from icon_scan_result [OF sc] have pos: "1 \<le> pos" "pos \<le> 4"
    and dig: "\<And>i. 1 \<le> i \<Longrightarrow> i < pos \<Longrightarrow> is_digit (byte_at text i)"
    by auto
  from hp have len: "pos < length text"
    by (auto simp: byte_at_def split: if_splits)
  let ?ds = "take (pos - 1) (drop 1 text)"
  let ?rest = "drop (pos + 1) text"
  have t0: "text ! 0 = 0x23" using h0 len by (auto simp add: byte_at_def split: if_splits)
  have tp: "text ! pos = 0x23" using hp len by (simp add: byte_at_def)
  have "text = take 1 text @ ?ds @ drop pos text"
    using pos by (metis Suc_diff_1 append_take_drop_id drop_drop le_zero_eq not_gr_zero
        plus_1_eq_Suc take_drop zero_neq_one append.assoc take_add add.commute)
  moreover have "take 1 text = [0x23]"
    using t0 len by (cases "text") auto
  moreover have "drop pos text = 0x23 # ?rest"
    using tp len by (metis Cons_nth_drop_Suc Suc_eq_plus1)
  ultimately have dec: "text = 0x23 # ?ds @ 0x23 # ?rest" by simp
  have l: "length ?ds \<le> 3" using pos by simp
  have "list_all is_digit ?ds"
    unfolding list_all_length
  proof (intro allI impI)
    fix n assume "n < length ?ds"
    then have n: "n < pos - 1" "n + 1 < length text" by auto
    then have "?ds ! n = text ! (n + 1)" by simp
    moreover have "is_digit (byte_at text (n + 1))" using dig [of "n + 1"] n by simp
    ultimately show "is_digit (?ds ! n)" using n by (simp add: byte_at_def)
  qed
  with dec l assms show False by blast
qed

text \<open>
  C7, as the code has it. A line that begins with \<^verbatim>\<open>#\<close>, then at most three decimal
  digits (none is allowed), then \<^verbatim>\<open>#\<close> has an icon: its id is the decimal value of the
  digits (0 for no digit) and the text pointer moves past the closing \<^verbatim>\<open>#\<close>. Any other
  line has no icon (id \<open>-1\<close>) and the pointer does not move.
\<close>

theorem GetTextIcon_marker:
  "(length ds \<le> 3 \<and> list_all is_digit ds \<longrightarrow>
      GetTextIcon (0x23 # ds @ 0x23 # rest) = (rest, decimal ds) \<and> 0 \<le> decimal ds) \<and>
   ((\<nexists>ds rest. text = 0x23 # ds @ 0x23 # rest \<and> length ds \<le> 3 \<and> list_all is_digit ds) \<longrightarrow>
      GetTextIcon text = (text, -1))"
  using GetTextIcon_marker_found GetTextIcon_no_marker decimal_nonneg by blast

theorem GetTextIcon_marker_witness:
  "GetTextIcon [0x23, 0x31, 0x32, 0x23, 0x61] = ([0x61], 12) \<and>
   GetTextIcon [0x61, 0x23] = ([0x61, 0x23], -1)"
  using GetTextIcon_marker [of "[0x31, 0x32]" "[0x61]" "[0x61, 0x23]"]
  by (simp add: is_digit_def decimal_def)

text \<open>
  C7, as the claim states it, fails for a marker with no digit: on \<^verbatim>\<open>"##a"\<close> the code
  finds icon 0 and moves the pointer by two bytes.
\<close>

theorem GetTextIcon_no_digit_counterexample:
  "GetTextIcon [0x23, 0x23, 0x61] = ([0x61], 0)"
  by (simp add: GetTextIcon_def byte_at_def icon_scan.simps is_digit_def TextToInteger_def
      c_string_def)


subsection \<open>UTF-8 decoding\<close>

lemma byte_all: "(\<forall>b::byte. P b) \<longleftrightarrow> list_all P (map word_of_nat [0..<256])"
proof
  assume "\<forall>b. P b" then show "list_all P (map word_of_nat [0..<256])" by (simp add: list_all_iff)
next
  assume a: "list_all P (map word_of_nat [0..<256])"
  show "\<forall>b. P b"
  proof
    fix b :: byte
    have "unat b < 2 ^ LENGTH(8)" by (rule unsigned_less)
    then have "unat b \<in> set [0..<256]" by simp
    then have "word_of_nat (unat b) \<in> set (map word_of_nat [0..<256] :: byte list)"
      unfolding set_map by (rule imageI)
    with a have "P (word_of_nat (unat b))" unfolding list_all_iff by blast
    then show "P b" by simp
  qed
qed

lemma mask_f8: "\<forall>b::byte. (b AND 0xf8 = 0xf0) = (utf8_length b = 4)"
  unfolding byte_all by code_simp

lemma mask_f0: "\<forall>b::byte. (b AND 0xf0 = 0xe0) = (utf8_length b = 3)"
  unfolding byte_all by code_simp

lemma mask_e0: "\<forall>b::byte. (b AND 0xe0 = 0xc0) = (utf8_length b = 2)"
  unfolding byte_all by code_simp

lemma mask_80: "\<forall>b::byte. (b AND 0x80 = 0) = (utf8_length b = 1)"
  unfolding byte_all by code_simp

lemma cont_bad_iff: "\<forall>b::byte. cont_bad b = (\<not> utf8_continuation b)"
  unfolding byte_all by code_simp

lemma cont_bits: "\<forall>b::byte. utf8_continuation b \<longrightarrow> uint (b AND 0x3f) = uint b - 0x80 \<and> uint b - 0x80 < 64 \<and> 0 \<le> uint b - 0x80"
  unfolding byte_all by code_simp

lemma lead_bits:
  "\<forall>b::byte. (utf8_length b = 4 \<longrightarrow> uint (b AND 0x07) = uint b - 0xF0) \<and>
     (utf8_length b = 3 \<longrightarrow> uint (b AND 0x0f) = uint b - 0xE0) \<and>
     (utf8_length b = 2 \<longrightarrow> uint (b AND 0x1f) = uint b - 0xC0)"
  unfolding byte_all by code_simp


lemma or_push_add:
  fixes x y :: int
  assumes "0 \<le> y" "y < 2 ^ n"
  shows "push_bit n x OR y = x * 2 ^ n + y"
proof -
  have "take_bit n y = y" using assms by (simp add: take_bit_int_eq_self)
  then have "push_bit n x OR y = concat_bit n y x"
    by (simp add: concat_bit_def or.commute)
  also have "\<dots> = take_bit n y + push_bit n x" by (rule concat_bit_eq)
  finally show ?thesis using \<open>take_bit n y = y\<close> by (simp add: push_bit_eq_mult)
qed

lemma utf8_length_le4: "utf8_length b \<le> 4"
  by (simp add: utf8_length_def)

lemma utf8_length_cases:
  obtains "utf8_length b = 0" | "utf8_length b = 1" | "utf8_length b = 2"
    | "utf8_length b = 3" | "utf8_length b = 4"
  using utf8_length_le4 [of b] by (cases "utf8_length b = 0"; cases "utf8_length b = 1";
      cases "utf8_length b = 2"; cases "utf8_length b = 3"; cases "utf8_length b = 4"; simp)

lemma upt_1_4:
  "[1..<4] = [1, 2, 3]" "[1..<3] = [1, 2]" "[1..<2] = [1]" "[1..<1] = []" "[1..<0] = []"
  "[Suc 0..<4] = [1, 2, 3]" "[Suc 0..<3] = [1, 2]" "[Suc 0..<2] = [1]"
  by (simp_all add: upt_rec)

lemma GetCodepointNext_utf8:
  "GetCodepointNext ptr =
     (if utf8_well_formed ptr then (utf8_value ptr, utf8_length (byte_at ptr 0)) else (0x3f, 1))"
proof (cases "byte_at ptr 0" rule: utf8_length_cases)
  case 1
  then show ?thesis
    by (simp add: GetCodepointNext_def utf8_well_formed_def mask_f8 mask_f0 mask_e0 mask_80)
next
  case 2
  then show ?thesis
    by (simp add: GetCodepointNext_def utf8_well_formed_def utf8_value_def
        mask_f8 mask_f0 mask_e0 mask_80 upt_1_4)
next
  case 3
  show ?thesis
  proof (cases "utf8_continuation (byte_at ptr 1)")
    case True
    note c1 = cont_bits [rule_format, OF True]
    have "push_bit 6 (uint (byte_at ptr 0 AND 0x1f)) OR uint (byte_at ptr 1 AND 0x3f) =
            (uint (byte_at ptr 0) - 0xC0) * 64 + (uint (byte_at ptr 1) - 0x80)"
      using or_push_add [of "uint (byte_at ptr 1) - 0x80" 6 "uint (byte_at ptr 0) - 0xC0"] c1
        lead_bits [rule_format, of "byte_at ptr 0"] 3 by simp
    with 3 True show ?thesis
      by (simp add: GetCodepointNext_def utf8_well_formed_def utf8_value_def
          mask_f8 mask_f0 mask_e0 mask_80 upt_1_4 cont_bad_iff)
  next
    case False
    with 3 show ?thesis
      by (simp add: GetCodepointNext_def utf8_well_formed_def
          mask_f8 mask_f0 mask_e0 mask_80 upt_1_4 cont_bad_iff)
  qed
next
  case 4
  show ?thesis
  proof (cases "utf8_continuation (byte_at ptr 1) \<and> utf8_continuation (byte_at ptr 2)")
    case True
    note c1 = cont_bits [rule_format, OF True [THEN conjunct1]]
    note c2 = cont_bits [rule_format, OF True [THEN conjunct2]]
    let ?a = "uint (byte_at ptr 0) - 0xE0"
    let ?c1 = "uint (byte_at ptr 1) - 0x80"
    let ?c2 = "uint (byte_at ptr 2) - 0x80"
    have "push_bit 6 ?c1 OR ?c2 = ?c1 * 64 + ?c2"
      using or_push_add [of ?c2 6 ?c1] c2 by simp
    moreover have "push_bit 12 ?a OR (?c1 * 64 + ?c2) = ?a * 4096 + (?c1 * 64 + ?c2)"
      using or_push_add [of "?c1 * 64 + ?c2" 12 ?a] c1 c2 by simp
    ultimately have "push_bit 12 (uint (byte_at ptr 0 AND 0x0f)) OR
        push_bit 6 (uint (byte_at ptr 1 AND 0x3f)) OR uint (byte_at ptr 2 AND 0x3f) =
        ?a * 4096 + ?c1 * 64 + ?c2"
      using c1 c2 lead_bits [rule_format, of "byte_at ptr 0"] 4 by simp
    with 4 True show ?thesis
      by (simp add: GetCodepointNext_def utf8_well_formed_def utf8_value_def
          mask_f8 mask_f0 mask_e0 mask_80 upt_1_4 cont_bad_iff)
  next
    case False
    with 4 show ?thesis
      by (auto simp add: GetCodepointNext_def utf8_well_formed_def
          mask_f8 mask_f0 mask_e0 mask_80 upt_1_4 cont_bad_iff)
  qed
next
  case 5
  show ?thesis
  proof (cases "utf8_continuation (byte_at ptr 1) \<and> utf8_continuation (byte_at ptr 2) \<and>
                utf8_continuation (byte_at ptr 3)")
    case True
    note c1 = cont_bits [rule_format, OF True [THEN conjunct1]]
    note c2 = cont_bits [rule_format, OF True [THEN conjunct2, THEN conjunct1]]
    note c3 = cont_bits [rule_format, OF True [THEN conjunct2, THEN conjunct2]]
    let ?a = "uint (byte_at ptr 0) - 0xF0"
    let ?c1 = "uint (byte_at ptr 1) - 0x80"
    let ?c2 = "uint (byte_at ptr 2) - 0x80"
    let ?c3 = "uint (byte_at ptr 3) - 0x80"
    have "push_bit 6 ?c2 OR ?c3 = ?c2 * 64 + ?c3"
      using or_push_add [of ?c3 6 ?c2] c3 by simp
    moreover have "push_bit 12 ?c1 OR (?c2 * 64 + ?c3) = ?c1 * 4096 + (?c2 * 64 + ?c3)"
      using or_push_add [of "?c2 * 64 + ?c3" 12 ?c1] c2 c3 by simp
    moreover have "push_bit 18 ?a OR (?c1 * 4096 + (?c2 * 64 + ?c3)) =
        ?a * 262144 + (?c1 * 4096 + (?c2 * 64 + ?c3))"
      using or_push_add [of "?c1 * 4096 + (?c2 * 64 + ?c3)" 18 ?a] c1 c2 c3 by simp
    ultimately have "push_bit 18 (uint (byte_at ptr 0 AND 0x07)) OR
        push_bit 12 (uint (byte_at ptr 1 AND 0x3f)) OR
        push_bit 6 (uint (byte_at ptr 2 AND 0x3f)) OR uint (byte_at ptr 3 AND 0x3f) =
        ?a * 262144 + ?c1 * 4096 + ?c2 * 64 + ?c3"
      using c1 c2 c3 lead_bits [rule_format, of "byte_at ptr 0"] 5 by simp
    with 5 True show ?thesis
      by (simp add: GetCodepointNext_def utf8_well_formed_def utf8_value_def
          mask_f8 mask_f0 mask_e0 mask_80 upt_1_4 cont_bad_iff)
  next
    case False
    with 5 show ?thesis
      by (auto simp add: GetCodepointNext_def utf8_well_formed_def
          mask_f8 mask_f0 mask_e0 mask_80 upt_1_4 cont_bad_iff)
  qed
qed

lemma cursor_step_pos: "1 \<le> cursor_step ptr \<and> cursor_step ptr \<le> 4"
  unfolding cursor_step_def GetCodepointNext_utf8
  using utf8_length_le4 [of "byte_at ptr 0"]
  by (auto simp: utf8_well_formed_def Let_def)

termination glyph_cursors
proof (relation "measure (\<lambda>(line, lineSize, c). lineSize - c)")
  show "wf (measure (\<lambda>(line, lineSize, c). lineSize - c))" by simp
next
  fix line :: "byte list" and lineSize c :: nat
  assume "c < lineSize"
  then show "((line, lineSize, c + cursor_step (drop c line)), (line, lineSize, c))
               \<in> measure (\<lambda>(line, lineSize, c). lineSize - c)"
    using cursor_step_pos [of "drop c line"] by (simp, arith)
qed

declare glyph_cursors.simps [simp del]

lemma glyph_cursors_bounds:
  "length (glyph_cursors line lineSize c) \<le> lineSize - c \<and>
   (\<forall>k \<in> set (glyph_cursors line lineSize c). c \<le> k \<and> k < lineSize) \<and>
   sorted_wrt (<) (glyph_cursors line lineSize c)"
proof (induction line lineSize c rule: glyph_cursors.induct)
  case (1 line lineSize c)
  show ?case
  proof (cases "c < lineSize \<and> fst (GetCodepointNext (drop c line)) \<noteq> 0x0A")
    case True
    let ?c' = "c + cursor_step (drop c line)"
    have step: "c < ?c'" using cursor_step_pos [of "drop c line"] by simp
    have eq: "glyph_cursors line lineSize c = c # glyph_cursors line lineSize ?c'"
      using True by (simp add: glyph_cursors.simps [of line lineSize c])
    from "1.IH" True have ih: "length (glyph_cursors line lineSize ?c') \<le> lineSize - ?c'"
      "\<forall>k \<in> set (glyph_cursors line lineSize ?c'). ?c' \<le> k \<and> k < lineSize"
      "sorted_wrt (<) (glyph_cursors line lineSize ?c')"
      by auto
    show ?thesis
      unfolding eq using ih step True by auto
  next
    case False
    then show ?thesis
      by (auto simp: glyph_cursors.simps [of line lineSize c])
  qed
qed



subsection \<open>Colour conversion\<close>

lemma trunc_int_floor: "0 \<le> f \<Longrightarrow> trunc_int f = \<lfloor>f\<rfloor>"
  by (simp add: trunc_int_def)

text \<open>The sectors of \<^verbatim>\<open>ConvertHSVtoRGB\<close>, for a hue of \<open>60*hh\<close> degrees, saturation
  \<open>d/mx\<close> and value \<open>mx\<close>.\<close>

lemma hsv_sector:
  assumes "0 < mx" "0 < d" "0 \<le> hh" "hh < 6" "\<lfloor>hh\<rfloor> = i"
  shows "ConvertHSVtoRGB \<lparr> v3_x = 60*hh, v3_y = d/mx, v3_z = mx \<rparr> =
     (let ff = hh - of_int i; mn = mx - d
      in if i = 0 then \<lparr> v3_x = mx, v3_y = mn + d*ff, v3_z = mn \<rparr>
         else if i = 1 then \<lparr> v3_x = mx - d*ff, v3_y = mx, v3_z = mn \<rparr>
         else if i = 2 then \<lparr> v3_x = mn, v3_y = mx, v3_z = mn + d*ff \<rparr>
         else if i = 3 then \<lparr> v3_x = mn, v3_y = mx - d*ff, v3_z = mx \<rparr>
         else if i = 4 then \<lparr> v3_x = mn + d*ff, v3_y = mn, v3_z = mx \<rparr>
         else \<lparr> v3_x = mx, v3_y = mn, v3_z = mx - d*ff \<rparr>)"
proof -
  have "0 < d/mx" using assms(1,2) by (rule_tac divide_pos_pos)
  then have s: "\<not> d/mx \<le> 0" by simp
  have h: "\<not> 60*hh \<ge> 360" using assms by simp
  have t: "trunc_int (60*hh/60) = i" using assms by (simp add: trunc_int_floor)
  have p: "mx*(1 - d/mx) = mx - d" using assms by (simp add: field_simps)
  have q: "mx*(1 - d/mx*ff) = mx - d*ff" for ff using assms by (simp add: field_simps)
  have t': "mx*(1 - d/mx*(1 - ff)) = mx - d + d*ff" for ff using assms by (simp add: field_simps)
  show ?thesis
    unfolding ConvertHSVtoRGB_def Let_def
    by (simp only: Vector3.simps s h t if_False p q t') (simp add: algebra_simps)
qed

lemma rgb_hsv_roundtrip:
  assumes mn: "0 \<le> r" "0 \<le> g" "0 \<le> b"
    and chroma: "max r (max g b) - min r (min g b) \<ge> float_0_00001"
  shows "ConvertHSVtoRGB (ConvertRGBtoHSV \<lparr> v3_x = r, v3_y = g, v3_z = b \<rparr>) =
           \<lparr> v3_x = r, v3_y = g, v3_z = b \<rparr>"
proof -
  define mx where "mx = max r (max g b)"
  define mi where "mi = min r (min g b)"
  define d where "d = mx - mi"
  have d: "0 < d" "\<not> d < float_0_00001" using chroma by (simp_all add: d_def mx_def mi_def)
  have mx: "0 < mx" using d mn by (auto simp: d_def mx_def mi_def)
  have md: "mx - d = mi" by (simp add: d_def)
  have le: "r \<le> mx" "g \<le> mx" "b \<le> mx" by (simp_all add: mx_def)
  have ge: "mi \<le> r" "mi \<le> g" "mi \<le> b" by (simp_all add: mi_def)
  have min2: "(if (if r < g then r else g) < b then (if r < g then r else g) else b) = mi"
    by (auto simp: mi_def)
  have max2: "(if (if r > g then r else g) > b then (if r > g then r else g) else b) = mx"
    by (auto simp: mx_def)
  define h where "h = (if r \<ge> mx then (g - b)/d
                        else if g \<ge> mx then 2 + (b - r)/d else 4 + (r - g)/d)"
  define hh where "hh = (if h < 0 then h + 6 else h)"
  have conv: "ConvertRGBtoHSV \<lparr> v3_x = r, v3_y = g, v3_z = b \<rparr> =
                \<lparr> v3_x = 60*hh, v3_y = d/mx, v3_z = mx \<rparr>"
  proof -
    have "(if h*60 < 0 then h*60 + 360 else h*60) = 60*hh"
      by (simp add: hh_def)
    then show ?thesis
      unfolding ConvertRGBtoHSV_def Let_def Vector3.simps min2 max2 d_def [symmetric]
        h_def [symmetric]
      using d mx by simp
  qed
  consider (A) "r \<ge> mx" "g \<ge> b" | (B) "r \<ge> mx" "g < b" | (C) "r < mx" "g \<ge> mx"
    | (D) "r < mx" "g < mx"
    by linarith
  then show ?thesis
  proof cases
    case A
    then have rm: "r = mx" "mi = b" by (auto simp: mx_def mi_def)
    have "0 \<le> (g - b)/d" using A d by simp
    then have hv: "hh = (g - b)/d" using A by (simp add: hh_def h_def)
    have "g - b \<le> d" using le ge by (simp add: d_def)
    then have "(g - b)/d \<le> 1" using d by (simp add: field_simps)
    with \<open>0 \<le> (g - b)/d\<close> have range: "0 \<le> hh" "hh \<le> 1" by (simp_all add: hv)
    show ?thesis
    proof (cases "hh < 1")
      case True
      with range have fl: "\<lfloor>hh\<rfloor> = 0" by linarith
      have h6: "hh < 6" using True by simp
      from hsv_sector [OF mx d(1) range(1) h6 fl]
      show ?thesis unfolding conv using rm md d by (simp add: hv Let_def)
    next
      case False
      with range have h1: "hh = 1" by simp
      then have fl: "\<lfloor>hh\<rfloor> = 1" by simp
      have h6: "hh < 6" using h1 by simp
      have "g - b = d" using h1 hv d by (simp add: field_simps)
      then have "g = mx" using rm by (simp add: d_def)
      with hsv_sector [OF mx d(1) range(1) h6 fl]
      show ?thesis unfolding conv using h1 rm md by (simp add: Let_def)
    qed
  next
    case B
    then have rm: "r = mx" "mi = g" by (auto simp: mx_def mi_def)
    have "(g - b)/d < 0" using B d by (simp add: divide_neg_pos)
    then have hv: "hh = (g - b)/d + 6" using B by (simp add: hh_def h_def)
    have "b - g \<le> d" using le ge by (simp add: d_def)
    then have "- 1 \<le> (g - b)/d" using d by (simp add: field_simps)
    with \<open>(g - b)/d < 0\<close> have range: "5 \<le> hh" "hh < 6" by (simp_all add: hv)
    then have fl: "\<lfloor>hh\<rfloor> = 5" by linarith
    have "0 \<le> hh" using range by simp
    from hsv_sector [OF mx d(1) this range(2) fl]
    show ?thesis unfolding conv using rm md d by (simp add: hv Let_def field_simps)
  next
    case C
    then have gm: "g = mx" by (auto simp: mx_def)
    have hv: "hh = 2 + (b - r)/d"
    proof -
      have "r - b < d" using C(1) ge by (simp add: d_def)
      then have "- 1 < (b - r)/d" using d by (simp add: field_simps)
      then show ?thesis using C by (simp add: hh_def h_def)
    qed
    have lo: "- 1 < (b - r)/d"
    proof -
      have "r - b < d" using C(1) ge by (simp add: d_def)
      then show ?thesis using d by (simp add: field_simps)
    qed
    have hi: "(b - r)/d \<le> 1"
    proof -
      have "b - r \<le> d" using le ge by (simp add: d_def)
      then show ?thesis using d by (simp add: field_simps)
    qed
    have range: "0 \<le> hh" "hh < 6" using lo hi by (simp_all add: hv)
    consider (c1) "b < r" | (c2) "r \<le> b" "(b - r)/d < 1" | (c3) "(b - r)/d = 1" using hi by linarith
    then show ?thesis
    proof cases
      case c1
      then have "(b - r)/d < 0" using d by (simp add: divide_neg_pos)
      with lo have fl: "\<lfloor>hh\<rfloor> = 1" unfolding hv by linarith
      have "mi = b" using c1 C by (auto simp: mi_def)
      with hsv_sector [OF mx d(1) range fl]
      show ?thesis unfolding conv using gm md d by (simp add: hv Let_def field_simps)
    next
      case c2
      then have "0 \<le> (b - r)/d" using d by simp
      with c2 have fl: "\<lfloor>hh\<rfloor> = 2" unfolding hv by linarith
      have "mi = r" using c2 C by (auto simp: mi_def)
      with hsv_sector [OF mx d(1) range fl]
      show ?thesis unfolding conv using gm md d by (simp add: hv Let_def field_simps)
    next
      case c3
      then have h3: "hh = 3" by (simp add: hv)
      then have fl: "\<lfloor>hh\<rfloor> = 3" by simp
      from c3 d have "b - r = d" by (simp add: field_simps)
      then have "b = mx" "mi = r" using le ge by (simp_all add: d_def)
      with hsv_sector [OF mx d(1) range fl]
      show ?thesis unfolding conv using gm md h3 by (simp add: Let_def)
    qed
  next
    case D
    then have bm: "b = mx" by (auto simp: mx_def)
    have hv0: "h = 4 + (r - g)/d" using D by (simp add: h_def)
    have lo: "- 1 < (r - g)/d"
    proof -
      have "g - r < d" using D(2) ge by (simp add: d_def)
      then show ?thesis using d by (simp add: field_simps)
    qed
    have hi: "(r - g)/d < 1"
    proof -
      have "r - g < d" using D(1) ge by (simp add: d_def)
      then show ?thesis using d by (simp add: field_simps)
    qed
    have hv: "hh = 4 + (r - g)/d" using lo by (simp add: hh_def hv0)
    have range: "0 \<le> hh" "hh < 6" using lo hi by (simp_all add: hv)
    show ?thesis
    proof (cases "r < g")
      case True
      then have "(r - g)/d < 0" using d by (simp add: divide_neg_pos)
      with lo have fl: "\<lfloor>hh\<rfloor> = 3" unfolding hv by linarith
      have "mi = r" using True le(1) bm by (auto simp: mi_def)
      with hsv_sector [OF mx d(1) range fl]
      show ?thesis unfolding conv using bm md d by (simp add: hv Let_def field_simps)
    next
      case False
      then have "0 \<le> (r - g)/d" using d by simp
      with hi have fl: "\<lfloor>hh\<rfloor> = 4" unfolding hv by linarith
      have "mi = g" using False le(2) bm by (auto simp: mi_def)
      with hsv_sector [OF mx d(1) range fl]
      show ?thesis unfolding conv using bm md d by (simp add: hv Let_def field_simps)
    qed
  qed
qed


lemma rgb_hsv_achromatic:
  assumes "max r (max g b) - min r (min g b) < float_0_00001"
  shows "ConvertRGBtoHSV \<lparr> v3_x = r, v3_y = g, v3_z = b \<rparr> =
           \<lparr> v3_x = 0, v3_y = 0, v3_z = max r (max g b) \<rparr>"
proof -
  have min2: "(if (if r < g then r else g) < b then (if r < g then r else g) else b) =
                min r (min g b)"
    by auto
  have max2: "(if (if r > g then r else g) > b then (if r > g then r else g) else b) =
                max r (max g b)"
    by auto
  show ?thesis
    unfolding ConvertRGBtoHSV_def Let_def Vector3.simps min2 max2
    using assms by (simp only: if_True)
qed

lemma hsv_to_rgb_gray:
  "ConvertHSVtoRGB \<lparr> v3_x = h, v3_y = 0, v3_z = v \<rparr> = \<lparr> v3_x = v, v3_y = v, v3_z = v \<rparr>"
  by (simp add: ConvertHSVtoRGB_def)

text \<open>
  C3. For an RGB triple with channels in \<open>[0, 1]\<close> whose largest and smallest channel
  differ by at least the threshold of \<^verbatim>\<open>ConvertRGBtoHSV\<close>, the \<^verbatim>\<open>float\<close> value of
  \<^verbatim>\<open>0.00001f\<close>, converting to HSV
  and back returns the triple (exactly, in real arithmetic: the rounding of \<^verbatim>\<open>float\<close> is
  not modelled). Below the threshold the HSV triple is \<open>(0, 0, max)\<close>, hue and saturation
  forced to 0, and the way back gives the gray \<open>(max, max, max)\<close>.
\<close>

theorem rgb_hsv_round_trip:
  assumes "0 \<le> r" "r \<le> 1" "0 \<le> g" "g \<le> 1" "0 \<le> b" "b \<le> 1"
  shows "(max r (max g b) - min r (min g b) \<ge> float_0_00001 \<longrightarrow>
            ConvertHSVtoRGB (ConvertRGBtoHSV \<lparr> v3_x = r, v3_y = g, v3_z = b \<rparr>) =
              \<lparr> v3_x = r, v3_y = g, v3_z = b \<rparr>) \<and>
         (max r (max g b) - min r (min g b) < float_0_00001 \<longrightarrow>
            ConvertRGBtoHSV \<lparr> v3_x = r, v3_y = g, v3_z = b \<rparr> =
              \<lparr> v3_x = 0, v3_y = 0, v3_z = max r (max g b) \<rparr> \<and>
            ConvertHSVtoRGB (ConvertRGBtoHSV \<lparr> v3_x = r, v3_y = g, v3_z = b \<rparr>) =
              \<lparr> v3_x = max r (max g b), v3_y = max r (max g b), v3_z = max r (max g b) \<rparr>)"
proof (intro conjI impI)
  assume "float_0_00001 \<le> max r (max g b) - min r (min g b)"
  then show "ConvertHSVtoRGB (ConvertRGBtoHSV \<lparr> v3_x = r, v3_y = g, v3_z = b \<rparr>) =
               \<lparr> v3_x = r, v3_y = g, v3_z = b \<rparr>"
    by (rule rgb_hsv_roundtrip [OF assms(1,3,5)])
next
  assume a: "max r (max g b) - min r (min g b) < float_0_00001"
  show "ConvertRGBtoHSV \<lparr> v3_x = r, v3_y = g, v3_z = b \<rparr> =
          \<lparr> v3_x = 0, v3_y = 0, v3_z = max r (max g b) \<rparr>"
    by (rule rgb_hsv_achromatic [OF a])
  show "ConvertHSVtoRGB (ConvertRGBtoHSV \<lparr> v3_x = r, v3_y = g, v3_z = b \<rparr>) =
          \<lparr> v3_x = max r (max g b), v3_y = max r (max g b), v3_z = max r (max g b) \<rparr>"
    unfolding rgb_hsv_achromatic [OF a] by (rule hsv_to_rgb_gray)
qed

theorem rgb_hsv_round_trip_witness:
  "ConvertHSVtoRGB (ConvertRGBtoHSV \<lparr> v3_x = 0.2, v3_y = 0.7, v3_z = 0.4 \<rparr>) =
     \<lparr> v3_x = 0.2, v3_y = 0.7, v3_z = 0.4 \<rparr> \<and>
   ConvertHSVtoRGB (ConvertRGBtoHSV \<lparr> v3_x = 0.5, v3_y = 0.5, v3_z = 0.500001 \<rparr>) =
     \<lparr> v3_x = 0.500001, v3_y = 0.500001, v3_z = 0.500001 \<rparr> \<and>
   ConvertHSVtoRGB (ConvertRGBtoHSV \<lparr> v3_x = 0, v3_y = float_0_00001, v3_z = 0 \<rparr>) =
     \<lparr> v3_x = 0, v3_y = float_0_00001, v3_z = 0 \<rparr>"
  using rgb_hsv_round_trip [of "0.2" "0.7" "0.4"] rgb_hsv_round_trip [of "0.5" "0.5" "0.500001"]
    rgb_hsv_round_trip [of 0 "float_0_00001" 0]
  by (simp add: hsv_to_rgb_gray)

lemma rgb_to_hsv_ranges:
  assumes "0 \<le> r" "r \<le> 1" "0 \<le> g" "g \<le> 1" "0 \<le> b" "b \<le> 1"
  shows "0 \<le> v3_x (ConvertRGBtoHSV \<lparr> v3_x = r, v3_y = g, v3_z = b \<rparr>) \<and>
         v3_x (ConvertRGBtoHSV \<lparr> v3_x = r, v3_y = g, v3_z = b \<rparr>) < 360 \<and>
         0 \<le> v3_y (ConvertRGBtoHSV \<lparr> v3_x = r, v3_y = g, v3_z = b \<rparr>) \<and>
         v3_y (ConvertRGBtoHSV \<lparr> v3_x = r, v3_y = g, v3_z = b \<rparr>) \<le> 1 \<and>
         0 \<le> v3_z (ConvertRGBtoHSV \<lparr> v3_x = r, v3_y = g, v3_z = b \<rparr>) \<and>
         v3_z (ConvertRGBtoHSV \<lparr> v3_x = r, v3_y = g, v3_z = b \<rparr>) \<le> 1"
proof -
  define mx where "mx = max r (max g b)"
  define mi where "mi = min r (min g b)"
  define d where "d = mx - mi"
  have le: "r \<le> mx" "g \<le> mx" "b \<le> mx" by (simp_all add: mx_def)
  have ge: "mi \<le> r" "mi \<le> g" "mi \<le> b" by (simp_all add: mi_def)
  have mxr: "0 \<le> mx" "mx \<le> 1" using assms by (simp_all add: mx_def)
  have mir: "0 \<le> mi" using assms by (simp add: mi_def)
  have min2: "(if (if r < g then r else g) < b then (if r < g then r else g) else b) = mi"
    by (auto simp: mi_def)
  have max2: "(if (if r > g then r else g) > b then (if r > g then r else g) else b) = mx"
    by (auto simp: mx_def)
  show ?thesis
  proof (cases "d < float_0_00001 \<or> \<not> mx > 0")
    case True
    then show ?thesis
      unfolding ConvertRGBtoHSV_def Let_def Vector3.simps min2 max2 d_def [symmetric]
      using mxr by auto
  next
    case False
    then have d: "0 < d" "\<not> d < float_0_00001" and mx: "0 < mx" by simp_all
    define h where "h = (if r \<ge> mx then (g - b)/d
                          else if g \<ge> mx then 2 + (b - r)/d else 4 + (r - g)/d)"
    have conv: "ConvertRGBtoHSV \<lparr> v3_x = r, v3_y = g, v3_z = b \<rparr> =
                  \<lparr> v3_x = (if h*60 < 0 then h*60 + 360 else h*60), v3_y = d/mx, v3_z = mx \<rparr>"
      unfolding ConvertRGBtoHSV_def Let_def Vector3.simps min2 max2 d_def [symmetric]
        h_def [symmetric]
      using d mx by simp
    have b1: "- 1 \<le> (x - y)/d" if "y - x \<le> d" for x y
      using that d by (simp add: field_simps)
    have b2: "(x - y)/d \<le> 1" if "x - y \<le> d" for x y
      using that d by (simp add: field_simps)
    have b3: "(x - y)/d < 1" if "x - y < d" for x y
      using that d by (simp add: field_simps)
    have diff: "x - y \<le> d" if "x \<le> mx" "mi \<le> y" for x y
      using that by (simp add: d_def)
    have lo: "- 1 \<le> h"
      using b1 [OF diff [OF le(3) ge(2)]] b1 [OF diff [OF le(1) ge(3)]] b1 [OF diff [OF le(2) ge(1)]]
      by (simp add: h_def)
    have hi: "h < 5"
    proof (cases "r \<ge> mx \<or> g \<ge> mx")
      case True
      then show ?thesis
        using b2 [OF diff [OF le(2) ge(3)]] b2 [OF diff [OF le(3) ge(1)]]
        by (auto simp: h_def)
    next
      case False
      then have "r - g < d" using ge(2) by (simp add: d_def)
      from b3 [OF this] False show ?thesis by (simp add: h_def)
    qed
    have "d \<le> mx" using mir by (simp add: d_def)
    then have s: "0 \<le> d/mx" "d/mx \<le> 1" using d mx by simp_all
    show ?thesis unfolding conv using lo hi s mxr by auto
  qed
qed

lemma hsv_to_rgb_ranges:
  assumes "0 \<le> h" "0 \<le> s" "s \<le> 1" "0 \<le> v" "v \<le> 1"
  shows "0 \<le> v3_x (ConvertHSVtoRGB \<lparr> v3_x = h, v3_y = s, v3_z = v \<rparr>) \<and>
         v3_x (ConvertHSVtoRGB \<lparr> v3_x = h, v3_y = s, v3_z = v \<rparr>) \<le> 1 \<and>
         0 \<le> v3_y (ConvertHSVtoRGB \<lparr> v3_x = h, v3_y = s, v3_z = v \<rparr>) \<and>
         v3_y (ConvertHSVtoRGB \<lparr> v3_x = h, v3_y = s, v3_z = v \<rparr>) \<le> 1 \<and>
         0 \<le> v3_z (ConvertHSVtoRGB \<lparr> v3_x = h, v3_y = s, v3_z = v \<rparr>) \<and>
         v3_z (ConvertHSVtoRGB \<lparr> v3_x = h, v3_y = s, v3_z = v \<rparr>) \<le> 1"
proof -
  define hh where "hh = (if h \<ge> 360 then 0 else h)/60"
  define ff where "ff = hh - of_int (trunc_int hh)"
  have "0 \<le> hh" using assms(1) by (simp add: hh_def)
  then have ff: "0 \<le> ff" "ff \<le> 1"
    unfolding ff_def by (simp_all add: trunc_int_floor) linarith+
  have unit: "0 \<le> v*(1 - s*x) \<and> v*(1 - s*x) \<le> 1" if "0 \<le> x" "x \<le> 1" for x
  proof -
    have "0 \<le> s*x" using assms that by simp
    moreover have "s*x \<le> 1" using assms that by (simp add: mult_le_one)
    ultimately have "0 \<le> 1 - s*x" "1 - s*x \<le> 1" by simp_all
    then show ?thesis using assms by (simp add: mult_le_one)
  qed
  have p: "0 \<le> v*(1 - s)" "v*(1 - s) \<le> 1" using unit [of 1] by simp_all
  have q: "0 \<le> v*(1 - s*ff)" "v*(1 - s*ff) \<le> 1" using unit [OF ff] by simp_all
  have t: "0 \<le> v*(1 - s*(1 - ff))" "v*(1 - s*(1 - ff)) \<le> 1"
    using unit [of "1 - ff"] ff by simp_all
  show ?thesis
    unfolding ConvertHSVtoRGB_def Let_def Vector3.simps hh_def [symmetric] ff_def [symmetric]
    using p q t assms by auto
qed

lemma hsv_to_rgb_wraps:
  "360 \<le> h \<Longrightarrow> ConvertHSVtoRGB \<lparr> v3_x = h, v3_y = s, v3_z = v \<rparr> =
                 ConvertHSVtoRGB \<lparr> v3_x = 0, v3_y = s, v3_z = v \<rparr>"
  by (simp add: ConvertHSVtoRGB_def Let_def)

text \<open>
  C4, as the code has it. For channels in \<open>[0, 1]\<close>, \<^verbatim>\<open>ConvertRGBtoHSV\<close> returns
  saturation and value in \<open>[0, 1]\<close> and the hue in degrees, in \<open>[0, 360)\<close>.
  \<^verbatim>\<open>ConvertHSVtoRGB\<close> reads the hue in degrees: for a hue of at least 0, saturation and
  value in \<open>[0, 1]\<close>, its channels are in \<open>[0, 1]\<close>, and a hue of 360 or more is read as 0.
\<close>

theorem hsv_value_ranges:
  assumes "0 \<le> r" "r \<le> 1" "0 \<le> g" "g \<le> 1" "0 \<le> b" "b \<le> 1"
    and "0 \<le> h" "0 \<le> s" "s \<le> 1" "0 \<le> v" "v \<le> 1"
  shows "0 \<le> v3_x (ConvertRGBtoHSV \<lparr> v3_x = r, v3_y = g, v3_z = b \<rparr>) \<and>
         v3_x (ConvertRGBtoHSV \<lparr> v3_x = r, v3_y = g, v3_z = b \<rparr>) < 360 \<and>
         0 \<le> v3_y (ConvertRGBtoHSV \<lparr> v3_x = r, v3_y = g, v3_z = b \<rparr>) \<and>
         v3_y (ConvertRGBtoHSV \<lparr> v3_x = r, v3_y = g, v3_z = b \<rparr>) \<le> 1 \<and>
         0 \<le> v3_z (ConvertRGBtoHSV \<lparr> v3_x = r, v3_y = g, v3_z = b \<rparr>) \<and>
         v3_z (ConvertRGBtoHSV \<lparr> v3_x = r, v3_y = g, v3_z = b \<rparr>) \<le> 1 \<and>
         0 \<le> v3_x (ConvertHSVtoRGB \<lparr> v3_x = h, v3_y = s, v3_z = v \<rparr>) \<and>
         v3_x (ConvertHSVtoRGB \<lparr> v3_x = h, v3_y = s, v3_z = v \<rparr>) \<le> 1 \<and>
         0 \<le> v3_y (ConvertHSVtoRGB \<lparr> v3_x = h, v3_y = s, v3_z = v \<rparr>) \<and>
         v3_y (ConvertHSVtoRGB \<lparr> v3_x = h, v3_y = s, v3_z = v \<rparr>) \<le> 1 \<and>
         0 \<le> v3_z (ConvertHSVtoRGB \<lparr> v3_x = h, v3_y = s, v3_z = v \<rparr>) \<and>
         v3_z (ConvertHSVtoRGB \<lparr> v3_x = h, v3_y = s, v3_z = v \<rparr>) \<le> 1 \<and>
         (360 \<le> h \<longrightarrow> ConvertHSVtoRGB \<lparr> v3_x = h, v3_y = s, v3_z = v \<rparr> =
                       ConvertHSVtoRGB \<lparr> v3_x = 0, v3_y = s, v3_z = v \<rparr>)"
  using rgb_to_hsv_ranges [OF assms(1-6)] hsv_to_rgb_ranges [OF assms(7-11)]
    hsv_to_rgb_wraps [of h s v]
  by blast

theorem hsv_value_ranges_witness:
  "v3_x (ConvertRGBtoHSV \<lparr> v3_x = 0, v3_y = 1, v3_z = 0 \<rparr>) < 360 \<and>
   v3_y (ConvertRGBtoHSV \<lparr> v3_x = 0, v3_y = 1, v3_z = 0 \<rparr>) \<le> 1 \<and>
   v3_y (ConvertHSVtoRGB \<lparr> v3_x = 480, v3_y = 1, v3_z = 1 \<rparr>) \<le> 1 \<and>
   ConvertHSVtoRGB \<lparr> v3_x = 480, v3_y = 1, v3_z = 1 \<rparr> =
     ConvertHSVtoRGB \<lparr> v3_x = 0, v3_y = 1, v3_z = 1 \<rparr>"
  using hsv_value_ranges [of 0 1 0 480 1 1]
  by auto

text \<open>
  C4, as the claim states it, fails for the hue: pure green has hue 120, outside
  \<open>[0, 1]\<close>.
\<close>

theorem hsv_hue_degrees_counterexample:
  "ConvertRGBtoHSV \<lparr> v3_x = 0, v3_y = 1, v3_z = 0 \<rparr> = \<lparr> v3_x = 120, v3_y = 1, v3_z = 1 \<rparr>"
  by (simp add: ConvertRGBtoHSV_def)

subsection \<open>Exclusive drag\<close>

lemma style_loaded_fields [simp]:
  "guiState (style_loaded g) = guiState g"
  "guiLocked (style_loaded g) = guiLocked g"
  "guiAlpha (style_loaded g) = guiAlpha g"
  "guiControlExclusiveMode (style_loaded g) = guiControlExclusiveMode g"
  "guiControlExclusiveRec (style_loaded g) = guiControlExclusiveRec g"
  by (simp_all add: style_loaded_def GuiLoadStyleDefault_def)

lemma slider_value_at_finite:
  "rec_width bounds - of_int sliderWidth \<noteq> 0 \<Longrightarrow>
     slider_value_at bounds minValue maxValue sliderWidth mousePoint =
       Num ((maxValue - minValue)
              * ((v2_x mousePoint - rec_x bounds - of_int (c_div sliderWidth 2))
                   / (rec_width bounds - of_int sliderWidth)) + minValue)"
  by (simp add: slider_value_at_def)




subsection \<open>Scroll offsets and thumb length\<close>

lemma style_store_eval:
  "style_store c p v st k =
     (if c = 0 \<and> p < 16 \<and> (k - p) mod 24 = 0 \<and> 24 \<le> k - p \<and> k - p \<le> 360 then v
      else if k = style_index c p then v else st k)"
proof -
  have "k \<in> (\<lambda>i. style_index i p) ` {1..15} \<longleftrightarrow>
          (k - p) mod 24 = 0 \<and> 24 \<le> k - p \<and> k - p \<le> 360"
  proof
    assume "k \<in> (\<lambda>i. style_index i p) ` {1..15}"
    then obtain i where "1 \<le> i" "i \<le> 15" "k = 24*i + p"
      by (auto simp: style_index_24)
    then show "(k - p) mod 24 = 0 \<and> 24 \<le> k - p \<and> k - p \<le> 360" by simp
  next
    assume a: "(k - p) mod 24 = 0 \<and> 24 \<le> k - p \<and> k - p \<le> 360"
    define i where "i = (k - p) div 24"
    have "k - p = 24*i" using a mult_div_mod_eq [of 24 "k - p"] by (simp add: i_def)
    then have "k = style_index i p" "1 \<le> i" "i \<le> 15" using a by (simp_all add: style_index_24)
    then show "k \<in> (\<lambda>i. style_index i p) ` {1..15}" by simp
  qed
  then show ?thesis by (simp add: style_store_apply)
qed

lemma trunc_int_mono:
  assumes "x \<le> y"
  shows "trunc_int x \<le> trunc_int y"
proof (cases "0 \<le> x")
  case True
  with assms show ?thesis by (simp add: trunc_int_def floor_mono)
next
  case False
  show ?thesis
  proof (cases "0 \<le> y")
    case True
    have "\<lceil>x\<rceil> \<le> 0" using False by (simp add: ceiling_le_zero)
    moreover have "0 \<le> \<lfloor>y\<rfloor>" using True by simp
    ultimately have "\<lceil>x\<rceil> \<le> \<lfloor>y\<rfloor>" by linarith
    then show ?thesis using False True by (simp add: trunc_int_def)
  next
    case y: False
    with False assms show ?thesis by (simp add: trunc_int_def ceiling_mono)
  qed
qed

lemma trunc_int_of_int [simp]: "trunc_int (of_int k) = k"
  by (simp add: trunc_int_def)

lemma trunc_int_minus: "trunc_int (- x) = - trunc_int x"
  by (auto simp: trunc_int_def ceiling_def)

lemma trunc_int_le: "0 \<le> x \<Longrightarrow> of_int (trunc_int x) \<le> x"
  by (simp add: trunc_int_def)

lemma trunc_int_below: "of_int (trunc_int x) - 2 < x"
  unfolding trunc_int_def by (simp; linarith)

lemma trunc_int_ge3: "3 \<le> x \<Longrightarrow> 1 \<le> trunc_int x - 2"
  unfolding trunc_int_def by (simp; linarith)

text \<open>The thumb of a scrollbar and its track, along the bar.\<close>

lemma scrollbar_thumb_form:
  "scrollbar_thumb (GuiScrollBar_layout g bounds v mn mx) =
     (let s0 = style_int g SCROLLBAR SCROLL_SLIDER_SIZE;
          s1 = (if s0 < 1 then 1 else s0);
          track = scrollbar_track (GuiScrollBar_layout g bounds v mn mx)
      in of_int (if of_int s1 \<ge> track then trunc_int track - 2 else s1))"
  by (simp add: scrollbar_thumb_def scrollbar_track_def GuiScrollBar_layout_def Let_def)

lemma scrollbar_thumb_bounds:
  "scrollbar_thumb (GuiScrollBar_layout g bounds v mn mx)
     < scrollbar_track (GuiScrollBar_layout g bounds v mn mx) \<and>
   (3 \<le> scrollbar_track (GuiScrollBar_layout g bounds v mn mx) \<longrightarrow>
      1 \<le> scrollbar_thumb (GuiScrollBar_layout g bounds v mn mx))"
proof -
  define track where "track = scrollbar_track (GuiScrollBar_layout g bounds v mn mx)"
  define s1 where "s1 = (if style_int g SCROLLBAR SCROLL_SLIDER_SIZE < 1 then 1
                         else style_int g SCROLLBAR SCROLL_SLIDER_SIZE)"
  have s1: "1 \<le> s1" by (simp add: s1_def)
  have th: "scrollbar_thumb (GuiScrollBar_layout g bounds v mn mx) =
              of_int (if of_int s1 \<ge> track then trunc_int track - 2 else s1)"
    unfolding scrollbar_thumb_form Let_def track_def s1_def ..
  show ?thesis
    unfolding th track_def [symmetric]
    using trunc_int_below [of track] trunc_int_ge3 [of track] s1 by auto
qed


lemma trunc_int_le_max: "of_int (trunc_int x) \<le> max x 0"
  unfolding trunc_int_def by (simp; linarith)

lemma sl_value_layout:
  "sl_value (GuiScrollBar_layout g bounds v mn mx) =
     (if (if v > mx then mx else v) < mn then mn else (if v > mx then mx else v))"
  by (simp add: GuiScrollBar_layout_def Let_def)

lemma GuiScrollBar_result:
  assumes "GuiScrollBar bounds v mn mx inp g = Some (v', st, g')"
  shows "mn \<le> v' \<and> v' \<le> max mn mx \<and> guiStyle g' = guiStyle g \<and>
         guiState g' = guiState g \<and> guiLocked g' = guiLocked g"
  using assms unfolding GuiScrollBar_def Let_def sl_value_layout
  by (auto split: if_splits)

lemma GuiScrollBar_defined:
  assumes "style_int g SCROLLBAR SCROLL_SPEED \<noteq> 0"
  shows "\<exists>r. GuiScrollBar bounds v mn mx inp g = Some r"
  using assms unfolding GuiScrollBar_def Let_def by simp

lemma style_int_slider_size_set:
  assumes "style_index c p \<noteq> style_index SCROLLBAR SCROLL_SLIDER_SIZE"
  shows "style_int (style_set SCROLLBAR SCROLL_SLIDER_SIZE v g) c p = style_int g c p"
  using assms by (simp add: style_int_def style_set_def style_store_apply)

lemma style_set_fields [simp]:
  "guiState (style_set c p v g) = guiState g"
  "guiLocked (style_set c p v g) = guiLocked g"
  "guiControlExclusiveMode (style_set c p v g) = guiControlExclusiveMode g"
  "guiControlExclusiveRec (style_set c p v g) = guiControlExclusiveRec g"
  by (simp_all add: style_set_def)

lemma panel_bounds_size:
  "rec_width (panel_bounds bounds0 hasText) = rec_width bounds0"
  "rec_height (panel_bounds bounds0 hasText) \<noteq> 0"
  by (auto simp: panel_bounds_def Let_def)

lemma panel_update_defined:
  assumes "rec_width bounds \<noteq> 0" "rec_height bounds \<noteq> 0"
  shows "\<exists>st sp. panel_update g bounds content scroll inp = Some (st, sp)"
  using assms unfolding panel_update_def Let_def by (auto split: prod.splits)

text \<open>The view of a panel along an axis with a scrollbar is narrower than the content.\<close>

lemma panel_view_size:
  assumes "panel_scrollbars g bounds content = (hasH, hasV)"
    and "0 \<le> style_int g DEFAULT BORDER_WIDTH" "0 \<le> style_int g LISTVIEW SCROLLBAR_WIDTH"
  shows "hasH \<Longrightarrow> rec_width (panel_view g bounds content) =
           rec_width bounds - of_int (2*style_int g DEFAULT BORDER_WIDTH)
             - of_int (if hasV then style_int g LISTVIEW SCROLLBAR_WIDTH else 0) \<and>
           rec_width (panel_view g bounds content) < rec_width content"
    and "hasV \<Longrightarrow> rec_height (panel_view g bounds content) =
           rec_height bounds - of_int (2*style_int g DEFAULT BORDER_WIDTH)
             - of_int (if hasH then style_int g LISTVIEW SCROLLBAR_WIDTH else 0) \<and>
           rec_height (panel_view g bounds content) < rec_height content"
proof -
  define B where "B = style_int g DEFAULT BORDER_WIDTH"
  define W where "W = style_int g LISTVIEW SCROLLBAR_WIDTH"
  have nn: "0 \<le> (of_int B :: real)" "0 \<le> (of_int W :: real)"
    using assms(2,3) by (simp_all add: B_def W_def)
  have hH: "hasH \<longleftrightarrow> rec_width content > rec_width bounds - of_int (2*B) \<or>
              (rec_height content > rec_height bounds - of_int (2*B) \<and>
               rec_width content > rec_width bounds - of_int (2*B) - of_int W)"
    using assms(1) unfolding panel_scrollbars_def Let_def B_def W_def
    by (auto split: if_splits)
  have hV: "hasV \<longleftrightarrow> rec_height content > rec_height bounds - of_int (2*B) \<or>
              (hasH \<and> rec_height content > rec_height bounds - of_int (2*B) - of_int W)"
    using assms(1) unfolding panel_scrollbars_def Let_def B_def W_def
    by (auto split: if_splits)
  {
    assume h: hasH
    have lt: "rec_width bounds - of_int (2*B) - of_int (if hasV then W else 0) < rec_width content"
      using h hH hV nn by (cases hasV) auto
    then show "rec_width (panel_view g bounds content) =
           rec_width bounds - of_int (2*style_int g DEFAULT BORDER_WIDTH)
             - of_int (if hasV then style_int g LISTVIEW SCROLLBAR_WIDTH else 0) \<and>
           rec_width (panel_view g bounds content) < rec_width content"
      unfolding panel_view_def Let_def assms(1) B_def [symmetric] W_def [symmetric]
      by (auto simp: h)
  }
  {
    assume v: hasV
    have lt: "rec_height bounds - of_int (2*B) - of_int (if hasH then W else 0) < rec_height content"
      using v hV nn by (cases hasH) auto
    then show "rec_height (panel_view g bounds content) =
           rec_height bounds - of_int (2*style_int g DEFAULT BORDER_WIDTH)
             - of_int (if hasH then style_int g LISTVIEW SCROLLBAR_WIDTH else 0) \<and>
           rec_height (panel_view g bounds content) < rec_height content"
      unfolding panel_view_def Let_def assms(1) B_def [symmetric] W_def [symmetric]
      by (auto simp: v)
  }
qed


lemma panel_scroll_axis_result:
  assumes "style_int g SCROLLBAR SCROLL_SPEED \<noteq> 0" and "has \<Longrightarrow> trunc_int contentLength \<noteq> 0"
  shows "\<exists>x g1. panel_scroll_axis has len other contentLength bar pos minPos maxPos inp g
                  = Some (x, g1) \<and>
           (\<forall>c p. style_index c p \<noteq> style_index SCROLLBAR SCROLL_SLIDER_SIZE \<longrightarrow>
                    style_int g1 c p = style_int g c p) \<and>
           (if has then \<exists>v. x = - of_int v \<and> trunc_int minPos \<le> v \<and>
                              v \<le> max (trunc_int minPos) (trunc_int maxPos)
            else x = 0)"
proof (cases has)
  case False
  then show ?thesis by (simp add: panel_scroll_axis_def)
next
  case True
  then obtain sz where sz: "panel_slider_size len (style_int g DEFAULT BORDER_WIDTH) other
                              contentLength = Some sz"
    using assms(2) by (simp add: panel_slider_size_def)
  let ?g = "style_set SCROLLBAR SCROLL_SLIDER_SIZE sz g"
  have "style_int ?g SCROLLBAR SCROLL_SPEED \<noteq> 0"
    using assms(1) by (simp add: style_int_slider_size_set style_index_def)
  from GuiScrollBar_defined [OF this]
  obtain v st g1 where r: "GuiScrollBar bar (trunc_int (- pos)) (trunc_int minPos)
                             (trunc_int maxPos) inp ?g = Some (v, st, g1)"
    by (metis prod_cases3)
  from GuiScrollBar_result [OF r]
  have v: "trunc_int minPos \<le> v" "v \<le> max (trunc_int minPos) (trunc_int maxPos)"
    and st: "guiStyle g1 = guiStyle ?g" by simp_all
  have "style_int g1 c p = style_int g c p"
    if "style_index c p \<noteq> style_index SCROLLBAR SCROLL_SLIDER_SIZE" for c p
    using style_int_slider_size_set [OF that, of sz g] st by (simp add: style_int_def)
  with True sz r v show ?thesis
    by (auto simp: panel_scroll_axis_def)
qed

lemma scroll_panel_result:
  assumes B: "0 \<le> style_int (style_loaded g0) DEFAULT BORDER_WIDTH"
    and W: "0 \<le> style_int (style_loaded g0) LISTVIEW SCROLLBAR_WIDTH"
    and dw: "rec_width bounds0 \<noteq> 0"
    and dc: "trunc_int (rec_width content) \<noteq> 0" "trunc_int (rec_height content) \<noteq> 0"
    and ds: "style_int (style_loaded g0) SCROLLBAR SCROLL_SPEED \<noteq> 0"
    and bars: "panel_scrollbars (style_loaded g0) (panel_bounds bounds0 hasText) content
                 = (hasH, hasV)"
  shows "\<exists>scroll' st g'.
           GuiScrollPanel bounds0 hasText content scroll inp g0 =
             Some (scroll', panel_view (style_loaded g0) (panel_bounds bounds0 hasText) content,
                   st, g') \<and>
           (if hasH
            then - (rec_width content
                      - rec_width (panel_view (style_loaded g0) (panel_bounds bounds0 hasText)
                                     content)) \<le> v2_x scroll' \<and>
                 v2_x scroll' \<le> of_int (style_int (style_loaded g0) DEFAULT BORDER_WIDTH)
                   + (if style_int (style_loaded g0) LISTVIEW SCROLLBAR_SIDE = SCROLLBAR_LEFT_SIDE
                         \<and> hasV
                      then of_int (style_int (style_loaded g0) LISTVIEW SCROLLBAR_WIDTH) else 0)
            else v2_x scroll' = 0) \<and>
           (if hasV
            then - (rec_height content
                      - rec_height (panel_view (style_loaded g0) (panel_bounds bounds0 hasText)
                                      content)) \<le> v2_y scroll' \<and>
                 v2_y scroll' \<le> 0
            else v2_y scroll' = 0)"
proof -
  define g where "g = style_loaded g0"
  define bounds where "bounds = panel_bounds bounds0 hasText"
  define Bw where "Bw = style_int g DEFAULT BORDER_WIDTH"
  define Ww where "Ww = style_int g LISTVIEW SCROLLBAR_WIDTH"
  define left where "left \<longleftrightarrow> style_int g LISTVIEW SCROLLBAR_SIDE = SCROLLBAR_LEFT_SIDE"
  define hsbw where "hsbw = (if hasH then Ww else 0)"
  define vsbw where "vsbw = (if hasV then Ww else 0)"
  define hMin :: real where "hMin = (if left then - of_int vsbw else 0) - of_int Bw"
  define hMax :: real where "hMax = (if hasH then rec_width content - rec_width bounds
                   + of_int vsbw + of_int Bw - (if left then of_int vsbw else 0)
                 else - of_int Bw)"
  define vMin :: real where "vMin = (if hasV then 0 else - 1)"
  define vMax :: real where "vMax = (if hasV then rec_height content - rec_height bounds
                   + of_int hsbw + of_int Bw else - of_int Bw)"
  note bars' = bars [folded g_def bounds_def]
  have nn: "0 \<le> Bw" "0 \<le> Ww" using B W by (simp_all add: Bw_def Ww_def g_def)
  have nnw: "0 \<le> hsbw" "0 \<le> vsbw" using nn by (simp_all add: hsbw_def vsbw_def)
  have lim: "panel_limits g bounds content = (hMin, hMax, vMin, vMax)"
    unfolding panel_limits_def bars' Let_def
    by (simp add: hMin_def hMax_def vMin_def vMax_def Bw_def Ww_def left_def hsbw_def vsbw_def)
  have "rec_width bounds \<noteq> 0" "rec_height bounds \<noteq> 0"
    using dw by (simp_all add: bounds_def panel_bounds_size)
  from panel_update_defined [OF this]
  obtain st sp0 where up: "panel_update g bounds content scroll inp = Some (st, sp0)" by blast
  define sp where "sp = panel_normalize (hMin, hMax, vMin, vMax) sp0"
  have speed: "style_int g SCROLLBAR SCROLL_SPEED \<noteq> 0" using ds by (simp add: g_def)
  from panel_scroll_axis_result [OF speed, of hasH "rec_width content" "rec_width bounds" vsbw
      "panel_horizontalScrollBar g bounds content" "v2_x sp" hMin hMax inp] dc(1)
  obtain x g1 where h: "panel_scroll_axis hasH (rec_width bounds) vsbw (rec_width content)
        (panel_horizontalScrollBar g bounds content) (v2_x sp) hMin hMax inp g = Some (x, g1)"
    and g1: "\<And>c p. style_index c p \<noteq> style_index SCROLLBAR SCROLL_SLIDER_SIZE \<Longrightarrow>
                    style_int g1 c p = style_int g c p"
    and xr: "if hasH then \<exists>v. x = - of_int v \<and> trunc_int hMin \<le> v \<and>
                              v \<le> max (trunc_int hMin) (trunc_int hMax) else x = 0"
    by blast
  have speed1: "style_int g1 SCROLLBAR SCROLL_SPEED \<noteq> 0"
    using speed g1 [of SCROLLBAR SCROLL_SPEED] by (simp add: style_index_def)
  from panel_scroll_axis_result [OF speed1, of hasV "rec_height content" "rec_height bounds" hsbw
      "panel_verticalScrollBar g bounds content" "v2_y sp" vMin vMax inp] dc(2)
  obtain y g2 where v: "panel_scroll_axis hasV (rec_height bounds) hsbw (rec_height content)
        (panel_verticalScrollBar g bounds content) (v2_y sp) vMin vMax inp g1 = Some (y, g2)"
    and yr: "if hasV then \<exists>v. y = - of_int v \<and> trunc_int vMin \<le> v \<and>
                              v \<le> max (trunc_int vMin) (trunc_int vMax) else y = 0"
    by blast
  have res: "GuiScrollPanel bounds0 hasText content scroll inp g0 =
          Some (\<lparr> v2_x = x, v2_y = y \<rparr>, panel_view g bounds content, st,
                style_set SCROLLBAR SCROLL_SLIDER_SIZE (style_int g SCROLLBAR SCROLL_SLIDER_SIZE) g2)"
    unfolding GuiScrollPanel_def g_def [symmetric] bounds_def [symmetric] Let_def bars' lim
    by (simp only: prod.case option.case up sp_def [symmetric]
        h [unfolded vsbw_def Ww_def] v [unfolded hsbw_def Ww_def])
  note vs = panel_view_size [OF bars' nn [unfolded Bw_def Ww_def]]
  have xb: "- (rec_width content - rec_width (panel_view g bounds content)) \<le> x \<and>
            x \<le> of_int Bw + (if left \<and> hasV then of_int Ww else 0)" if hasH
  proof -
    from xr that obtain k where k: "x = - of_int k" "trunc_int hMin \<le> k"
      "k \<le> max (trunc_int hMin) (trunc_int hMax)" by auto
    from vs(1) [OF that] have vw: "rec_width (panel_view g bounds content) =
        rec_width bounds - of_int (2*Bw) - of_int vsbw"
      and lt: "rec_width (panel_view g bounds content) < rec_width content"
      by (simp_all add: Bw_def Ww_def vsbw_def)
    have hm: "hMin = of_int (- (if left then vsbw else 0) - Bw)" by (simp add: hMin_def)
    have tmin: "trunc_int hMin = - (if left then vsbw else 0) - Bw"
      unfolding hm by (rule trunc_int_of_int)
    have "- k \<le> Bw + (if left \<and> hasV then Ww else 0)"
      using k(2) nn unfolding tmin vsbw_def by (auto split: if_splits)
    then have "(of_int (- k) :: real) \<le> of_int (Bw + (if left \<and> hasV then Ww else 0))"
      by (simp only: of_int_le_iff)
    then have up: "x \<le> of_int Bw + (if left \<and> hasV then of_int Ww else 0)"
      using k(1) by (auto split: if_splits)
    have "hMax \<le> rec_width content - rec_width (panel_view g bounds content)"
      using that nn nnw by (simp add: hMax_def vw)
    then have "of_int (trunc_int hMax) \<le> rec_width content - rec_width (panel_view g bounds content)"
      using trunc_int_le_max [of hMax] lt by linarith
    moreover have "of_int (trunc_int hMin) \<le> rec_width content - rec_width (panel_view g bounds content)"
    proof -
      have "trunc_int hMin \<le> 0" using tmin nn nnw by simp
      then have "(of_int (trunc_int hMin) :: real) \<le> 0" by simp
      with lt show ?thesis by linarith
    qed
    ultimately have "of_int (max (trunc_int hMin) (trunc_int hMax))
        \<le> rec_width content - rec_width (panel_view g bounds content)"
      by (simp add: max_def)
    moreover have "(of_int k :: real) \<le> of_int (max (trunc_int hMin) (trunc_int hMax))"
      using k(3) by (simp only: of_int_le_iff)
    ultimately have "- (rec_width content - rec_width (panel_view g bounds content)) \<le> x"
      using k(1) by linarith
    with up show ?thesis by simp
  qed
  have yb: "- (rec_height content - rec_height (panel_view g bounds content)) \<le> y \<and> y \<le> 0"
    if hasV
  proof -
    from yr that obtain k where k: "y = - of_int k" "trunc_int vMin \<le> k"
      "k \<le> max (trunc_int vMin) (trunc_int vMax)" by auto
    from vs(2) [OF that] have vh: "rec_height (panel_view g bounds content) =
        rec_height bounds - of_int (2*Bw) - of_int hsbw"
      and lt: "rec_height (panel_view g bounds content) < rec_height content"
      by (simp_all add: Bw_def Ww_def hsbw_def)
    have tmin: "trunc_int vMin = 0" using that by (simp add: vMin_def trunc_int_def)
    have "0 \<le> k" using k(2) tmin by simp
    then have "(0::real) \<le> of_int k" by simp
    then have up: "y \<le> 0" using k(1) by simp
    have "vMax \<le> rec_height content - rec_height (panel_view g bounds content)"
      using that nn nnw by (simp add: vMax_def vh)
    then have "of_int (trunc_int vMax) \<le> rec_height content - rec_height (panel_view g bounds content)"
      using trunc_int_le_max [of vMax] lt by linarith
    moreover have "(0::real) \<le> rec_height content - rec_height (panel_view g bounds content)"
      using lt by simp
    ultimately have "of_int (max (trunc_int vMin) (trunc_int vMax))
        \<le> rec_height content - rec_height (panel_view g bounds content)"
      by (simp add: max_def tmin)
    moreover have "(of_int k :: real) \<le> of_int (max (trunc_int vMin) (trunc_int vMax))"
      using k(3) by (simp only: of_int_le_iff)
    ultimately have "- (rec_height content - rec_height (panel_view g bounds content)) \<le> y"
      using k(1) by linarith
    with up show ?thesis by simp
  qed
  show ?thesis
    unfolding g_def [symmetric] bounds_def [symmetric] res
    using xb yb xr yr
    by (auto simp: Bw_def Ww_def left_def)
qed

lemma scrollbar_track_plain:
  assumes "style_int g SCROLLBAR ARROWS_VISIBLE = 0" "style_int g SCROLLBAR BORDER_WIDTH = 0"
  shows "scrollbar_track (GuiScrollBar_layout g bar v mn mx) = max (rec_width bar) (rec_height bar)"
  using assms by (simp add: scrollbar_track_def GuiScrollBar_layout_def Let_def)

lemma panel_bar_length:
  "40 \<le> rec_width (panel_horizontalScrollBar g bounds content)"
  "40 \<le> rec_height (panel_verticalScrollBar g bounds content)"
  by (auto simp: panel_horizontalScrollBar_def panel_verticalScrollBar_def Let_def
      split: prod.splits)

lemma panel_thumb_bounds:
  assumes "style_int g1 SCROLLBAR ARROWS_VISIBLE = 0" "style_int g1 SCROLLBAR BORDER_WIDTH = 0"
  shows "1 \<le> scrollbar_thumb (GuiScrollBar_layout g1 (panel_horizontalScrollBar g bounds content)
                                v mn mx)"
    and "1 \<le> scrollbar_thumb (GuiScrollBar_layout g1 (panel_verticalScrollBar g bounds content)
                                v mn mx)"
proof -
  have "3 \<le> scrollbar_track (GuiScrollBar_layout g1 (panel_horizontalScrollBar g bounds content)
                                v mn mx)"
    unfolding scrollbar_track_plain [OF assms]
    using panel_bar_length(1) [of g bounds content] by simp
  then show "1 \<le> scrollbar_thumb (GuiScrollBar_layout g1
                     (panel_horizontalScrollBar g bounds content) v mn mx)"
    using scrollbar_thumb_bounds by blast
  have "3 \<le> scrollbar_track (GuiScrollBar_layout g1 (panel_verticalScrollBar g bounds content)
                                v mn mx)"
    unfolding scrollbar_track_plain [OF assms]
    using panel_bar_length(2) [of g bounds content] by simp
  then show "1 \<le> scrollbar_thumb (GuiScrollBar_layout g1
                     (panel_verticalScrollBar g bounds content) v mn mx)"
    using scrollbar_thumb_bounds by blast
qed

lemma left_side_gui_reached:
  "GuiSetStyle LISTVIEW SCROLLBAR_SIDE 0 gui_init = Some left_side_gui"
  by (simp add: GuiSetStyle_def left_side_gui_def style_set_def style_loaded_def gui_init_def
      style_in_bounds_def style_index_def Let_def)

lemma left_side_gui_loaded: "style_loaded left_side_gui = left_side_gui"
  by (simp add: style_loaded_def left_side_gui_def style_set_def GuiLoadStyleDefault_def)

lemma left_side_gui_fields:
  "guiState left_side_gui = STATE_NORMAL" "\<not> guiLocked left_side_gui"
  "\<not> guiControlExclusiveMode left_side_gui"
  by (simp_all add: left_side_gui_def style_set_def GuiLoadStyleDefault_def gui_init_def)

lemma left_side_gui_style:
  "style_int left_side_gui DEFAULT BORDER_WIDTH = 1"
  "style_int left_side_gui LISTVIEW SCROLLBAR_WIDTH = 12"
  "style_int left_side_gui LISTVIEW SCROLLBAR_SIDE = 0"
  "style_int left_side_gui SCROLLBAR BORDER_WIDTH = 0"
  "style_int left_side_gui SCROLLBAR ARROWS_VISIBLE = 0"
  "style_int left_side_gui SCROLLBAR SCROLL_SLIDER_SIZE = 16"
  "style_int left_side_gui SCROLLBAR SCROLL_PADDING = 0"
  "style_int left_side_gui SCROLLBAR SCROLL_SLIDER_PADDING = 0"
  "style_int left_side_gui SCROLLBAR SCROLL_SPEED = 12"
  by (simp_all add: style_int_def left_side_gui_def style_set_def GuiLoadStyleDefault_def
      default_style_props_def gui_init_def style_store_eval style_index_def)

lemma panel_100_bounds: "panel_bounds panel_100 False = panel_100"
  by (simp add: panel_bounds_def panel_100_def)

lemma panel_100_scrollbars:
  "panel_scrollbars left_side_gui panel_100 content_200 = (True, True)"
  by (simp add: panel_scrollbars_def panel_100_def content_200_def Let_def left_side_gui_style)

lemma panel_100_view:
  "panel_view left_side_gui panel_100 content_200 =
     \<lparr> rec_x = 13, rec_y = 1, rec_width = 86, rec_height = 86 \<rparr>"
  unfolding panel_view_def panel_100_scrollbars Let_def
  by (simp add: left_side_gui_style panel_100_def content_200_def)

lemma panel_100_size:
  "rec_width panel_100 = 100" "rec_height panel_100 = 100"
  "rec_width content_200 = 200" "rec_height content_200 = 200"
  by (simp_all add: panel_100_def content_200_def)

lemma scrollbar_thumb_short_track:
  "scrollbar_thumb (GuiScrollBar_layout left_side_gui
     \<lparr> rec_x = 0, rec_y = 0, rec_width = 2, rec_height = 1 \<rparr> 0 0 10) = 0"
  by (simp add: scrollbar_thumb_def GuiScrollBar_layout_def Let_def left_side_gui_style
      trunc_int_def)

text \<open>Claim C6 (scroll offset and thumb length). A call of \<^verbatim>\<open>GuiScrollPanel\<close> with a
  non-negative border and scrollbar width, a panel width and truncated content sizes other than
  zero and a scroll speed other than zero returns, and the scroll offset it stores is, on each
  axis with a visible scrollbar, at least \<open>- (content - viewport)\<close>; vertically it is at most 0;
  horizontally it is at most the border width, plus the width of the vertical scrollbar when that
  scrollbar is visible and the style puts it on the left side. On an axis with no scrollbar the
  offset is 0. In every \<^verbatim>\<open>GuiScrollBar\<close> the thumb is shorter than the track, and at least 1
  long when the track is at least 3 long.\<close>

theorem scroll_offset_clamped:
  assumes "0 \<le> style_int (style_loaded g0) DEFAULT BORDER_WIDTH"
    and "0 \<le> style_int (style_loaded g0) LISTVIEW SCROLLBAR_WIDTH"
    and "rec_width bounds0 \<noteq> 0"
    and "trunc_int (rec_width content) \<noteq> 0" and "trunc_int (rec_height content) \<noteq> 0"
    and "style_int (style_loaded g0) SCROLLBAR SCROLL_SPEED \<noteq> 0"
    and "panel_scrollbars (style_loaded g0) (panel_bounds bounds0 hasText) content
           = (hasH, hasV)"
  shows "(\<exists>scroll' st g'.
           GuiScrollPanel bounds0 hasText content scroll inp g0 =
             Some (scroll', panel_view (style_loaded g0) (panel_bounds bounds0 hasText) content,
                   st, g') \<and>
           (if hasH
            then - (rec_width content
                      - rec_width (panel_view (style_loaded g0) (panel_bounds bounds0 hasText)
                                     content)) \<le> v2_x scroll' \<and>
                 v2_x scroll' \<le> of_int (style_int (style_loaded g0) DEFAULT BORDER_WIDTH)
                   + (if style_int (style_loaded g0) LISTVIEW SCROLLBAR_SIDE = SCROLLBAR_LEFT_SIDE
                         \<and> hasV
                      then of_int (style_int (style_loaded g0) LISTVIEW SCROLLBAR_WIDTH) else 0)
            else v2_x scroll' = 0) \<and>
           (if hasV
            then - (rec_height content
                      - rec_height (panel_view (style_loaded g0) (panel_bounds bounds0 hasText)
                                      content)) \<le> v2_y scroll' \<and>
                 v2_y scroll' \<le> 0
            else v2_y scroll' = 0)) \<and>
         scrollbar_thumb (GuiScrollBar_layout g bar v mn mx)
           < scrollbar_track (GuiScrollBar_layout g bar v mn mx) \<and>
         (3 \<le> scrollbar_track (GuiScrollBar_layout g bar v mn mx) \<longrightarrow>
            1 \<le> scrollbar_thumb (GuiScrollBar_layout g bar v mn mx))"
  using scroll_panel_result [OF assms, of scroll inp] scrollbar_thumb_bounds [of g bar v mn mx]
  by blast

theorem scroll_offset_clamped_witness:
  "(\<exists>scroll' st g'.
      GuiScrollPanel panel_100 False content_200 \<lparr> v2_x = 50, v2_y = 0 \<rparr> idle_input
        left_side_gui =
        Some (scroll', \<lparr> rec_x = 13, rec_y = 1, rec_width = 86, rec_height = 86 \<rparr>, st, g') \<and>
      - 114 \<le> v2_x scroll' \<and> v2_x scroll' \<le> 13 \<and> - 114 \<le> v2_y scroll' \<and> v2_y scroll' \<le> 0) \<and>
   scrollbar_thumb (GuiScrollBar_layout left_side_gui
      \<lparr> rec_x = 0, rec_y = 88, rec_width = 100, rec_height = 12 \<rparr> 0 0 100)
     < scrollbar_track (GuiScrollBar_layout left_side_gui
      \<lparr> rec_x = 0, rec_y = 88, rec_width = 100, rec_height = 12 \<rparr> 0 0 100) \<and>
   1 \<le> scrollbar_thumb (GuiScrollBar_layout left_side_gui
      \<lparr> rec_x = 0, rec_y = 88, rec_width = 100, rec_height = 12 \<rparr> 0 0 100)"
  using scroll_offset_clamped [where ?g0.0 = left_side_gui and ?bounds0.0 = panel_100
      and content = content_200 and hasText = False and hasH = True and hasV = True
      and scroll = "\<lparr> v2_x = 50, v2_y = 0 \<rparr>" and inp = idle_input and g = left_side_gui
      and bar = "\<lparr> rec_x = 0, rec_y = 88, rec_width = 100, rec_height = 12 \<rparr>"
      and v = 0 and mn = 0 and mx = 100]
  by (simp add: left_side_gui_loaded left_side_gui_style panel_100_bounds panel_100_scrollbars
      panel_100_view panel_100_size scrollbar_track_plain trunc_int_def)

text \<open>With the scrollbar on the left side the horizontal offset goes up to the border width
  plus the scrollbar width: a stored offset of 50 comes back as 13, above 0 and above the border
  width 1.\<close>

theorem scroll_panel_left_side_counterexample:
  "map_option (\<lambda>(scroll, view, state, g). (v2_x scroll, v2_y scroll, rec_width view))
     (GuiScrollPanel panel_100 False content_200 \<lparr> v2_x = 50, v2_y = 0 \<rparr> idle_input
        left_side_gui) = Some (13, 0, 86)"
proof -
  note b = panel_100_bounds and sb = panel_100_scrollbars and sz = panel_100_size
  have lim: "panel_limits left_side_gui panel_100 content_200 = (- 13, 101, 0, 113)"
    unfolding panel_limits_def sb Let_def
    by (simp add: left_side_gui_style panel_100_def content_200_def)
  have up: "panel_update left_side_gui panel_100 content_200 \<lparr> v2_x = 50, v2_y = 0 \<rparr> idle_input
              = Some (STATE_NORMAL, \<lparr> v2_x = 50, v2_y = 0 \<rparr>)"
    by (simp add: panel_update_def Let_def left_side_gui_fields CheckCollisionPointRec_def
        idle_input_def panel_100_def split: prod.splits)
  have nz: "panel_normalize (- 13, 101, 0, 113) \<lparr> v2_x = 50, v2_y = 0 \<rparr> = \<lparr> v2_x = 13, v2_y = 0 \<rparr>"
    by (simp add: panel_normalize_def)
  have bar: "GuiScrollBar bar v mn mx idle_input (style_set SCROLLBAR SCROLL_SLIDER_SIZE sz g) =
               Some (sl_value (GuiScrollBar_layout (style_set SCROLLBAR SCROLL_SLIDER_SIZE sz g)
                                 bar v mn mx), STATE_NORMAL, style_set SCROLLBAR SCROLL_SLIDER_SIZE sz g)"
    if "guiState g = STATE_NORMAL" "\<not> guiLocked g" "\<not> guiControlExclusiveMode g"
       "\<not> CheckCollisionPointRec \<lparr> v2_x = 500, v2_y = 500 \<rparr> bar" "mn \<le> mx"
    for bar v mn mx sz g
    using that
    by (simp add: GuiScrollBar_def Let_def idle_input_def sl_value_layout)
  have hb: "\<not> CheckCollisionPointRec \<lparr> v2_x = 500, v2_y = 500 \<rparr>
              (panel_horizontalScrollBar left_side_gui panel_100 content_200)"
    unfolding panel_horizontalScrollBar_def sb Let_def
    by (simp add: left_side_gui_style panel_100_def CheckCollisionPointRec_def)
  have vb: "\<not> CheckCollisionPointRec \<lparr> v2_x = 500, v2_y = 500 \<rparr>
              (panel_verticalScrollBar left_side_gui panel_100 content_200)"
    unfolding panel_verticalScrollBar_def sb Let_def
    by (simp add: left_side_gui_style panel_100_def CheckCollisionPointRec_def)
  have h: "panel_scroll_axis True 100 12 200
             (panel_horizontalScrollBar left_side_gui panel_100 content_200) 13 (- 13) 101
             idle_input left_side_gui
           = Some (13, style_set SCROLLBAR SCROLL_SLIDER_SIZE 36 left_side_gui)"
    by (simp add: panel_scroll_axis_def panel_slider_size_def left_side_gui_style trunc_int_def
        bar [OF left_side_gui_fields hb] sl_value_layout)
  have v: "panel_scroll_axis True 100 12 200
             (panel_verticalScrollBar left_side_gui panel_100 content_200) 0 0 113
             idle_input (style_set SCROLLBAR SCROLL_SLIDER_SIZE 36 left_side_gui)
           = Some (0, style_set SCROLLBAR SCROLL_SLIDER_SIZE 36
                        (style_set SCROLLBAR SCROLL_SLIDER_SIZE 36 left_side_gui))"
    by (simp add: panel_scroll_axis_def panel_slider_size_def left_side_gui_style trunc_int_def
        style_int_slider_size_set style_index_def left_side_gui_fields
        bar [OF _ _ _ vb] sl_value_layout)
  have view: "rec_width (panel_view left_side_gui panel_100 content_200) = 86"
    by (simp add: panel_100_view)
  show ?thesis
    unfolding GuiScrollPanel_def left_side_gui_loaded b Let_def sb lim up
    by (simp add: nz left_side_gui_style sz h v view)
qed

subsection \<open>Text drawing without wrapping\<close>

lemma GetCodepointNext_size: "1 \<le> snd (GetCodepointNext ptr) \<and> snd (GetCodepointNext ptr) \<le> 4"
  by (simp add: GetCodepointNext_def Let_def)

lemma GetCodepointNext_step: "(a, n) = GetCodepointNext ptr \<Longrightarrow> i < sz \<Longrightarrow> sz - (i + n) < sz - i"
  using GetCodepointNext_size [of ptr] by (metis One_nat_def Suc_le_eq add_diff_cancel_left'
      diff_less_mono2 snd_conv zero_less_diff)

termination measure_loop
  by (relation "measure (\<lambda>(fnt, scaleFactor, spacing, text, sz, i, x). sz - i)")
    (auto intro: GetCodepointNext_step)

declare measure_loop.simps [simp del]

termination glyph_loop
proof (relation "measure (\<lambda>(fnt, g, env, line, lineSize, c, st). lineSize - c)")
  show "wf (measure (\<lambda>(fnt, g, env, line, lineSize, c, st). lineSize - c))" by simp
next
  fix fnt :: Font and g :: gui and env :: line_env and line :: "byte list"
    and lineSize c :: nat and st st2 :: glyph_state and codepointSize :: nat
  assume "c < lineSize" and "codepointSize = cursor_step (drop c line)"
  then show "((fnt, g, env, line, lineSize, c + codepointSize, st2), (fnt, g, env, line, lineSize, c, st))
               \<in> measure (\<lambda>(fnt, g, env, line, lineSize, c, st). lineSize - c)"
    using cursor_step_pos [of "drop c line"] by (simp, arith)
qed

declare glyph_loop.simps [simp del]

lemma c_div_3: "0 < k \<Longrightarrow> c_div (3 * k) 3 = k"
  by (simp add: c_div_def)

lemma ellipsis_loop_3:
  assumes "0 < k"
  shows "ellipsis_loop (3 * k) 0 = Some [0, k, 2 * k]"
proof -
  have "ellipsis_loop (3 * k) (3 * k) = Some []"
    by (subst ellipsis_loop.simps) simp
  then have "ellipsis_loop (3 * k) (2 * k) = Some [2 * k]"
    using assms by (subst ellipsis_loop.simps) (simp add: c_div_3)
  then have "ellipsis_loop (3 * k) k = Some [k, 2 * k]"
    using assms by (subst ellipsis_loop.simps) (simp add: c_div_3)
  then show ?thesis
    using assms by (subst ellipsis_loop.simps) (simp add: c_div_3)
qed

lemma wrap_measure_none:
  "gs_wrapMode st = TEXT_WRAP_NONE \<Longrightarrow> wrap_measure fnt g env line c codepoint glyphWidth st = st"
  by (simp add: wrap_measure_def)

lemma glyph_loop_end: "lineSize \<le> c \<Longrightarrow> glyph_loop fnt g env line lineSize c st = Some st"
  by (simp add: glyph_loop.simps [of fnt g env line lineSize c st])

lemma glyph_loop_none_step:
  assumes "c < lineSize" and "gs_wrapMode st = TEXT_WRAP_NONE"
    and "rec_width (le_textBounds env) < of_int (le_textSizeX env)"
    and "fst (GetCodepointNext (drop c line)) \<noteq> 0x0A"
  shows "glyph_loop fnt g env line lineSize c st =
     (let codepoint = fst (GetCodepointNext (drop c line));
          glyphWidth = glyph_width fnt (le_scaleFactor env) (GetGlyphIndex fnt codepoint);
          position = \<lparr> v2_x = v2_x (le_textBoundsPosition env) + gs_textOffsetX st,
                        v2_y = v2_y (le_textBoundsPosition env) + of_int (gs_textOffsetY st) \<rparr>;
          c' = c + cursor_step (drop c line);
          x' = gs_textOffsetX st + glyph_advance fnt g env line c
      in if codepoint \<noteq> 0x20 \<and> codepoint \<noteq> 0x09
         then (if gs_textOffsetX st \<le> rec_width (le_textBounds env) - glyphWidth
                     - le_textBoundsWidthOffset env - of_int (le_ellipsisWidth env)
               then glyph_loop fnt g env line lineSize c'
                      (st \<lparr> gs_drawn := gs_drawn st @ [DrawTextCodepoint codepoint position],
                            gs_textOffsetX := x' \<rparr>)
               else if \<not> gs_textOverflow st
               then (case ellipsis_loop (le_ellipsisWidth env) 0 of
                       None \<Rightarrow> None
                     | Some js \<Rightarrow>
                         glyph_loop fnt g env line lineSize c'
                           (st \<lparr> gs_textOverflow := True,
                                 gs_drawn := gs_drawn st @
                                    map (\<lambda>j. DrawTextCodepoint 0x2E
                                           (position \<lparr> v2_x := v2_x position + of_int j \<rparr>)) js,
                                 gs_textOffsetX := x' \<rparr>))
               else glyph_loop fnt g env line lineSize c' (st \<lparr> gs_textOffsetX := x' \<rparr>))
         else glyph_loop fnt g env line lineSize c' (st \<lparr> gs_textOffsetX := x' \<rparr>))"
  using assms
  by (subst glyph_loop.simps)
     (simp add: wrap_measure_none draw_glyph_def glyph_advance_def Let_def split: option.splits)

lemma glyph_cursors_step:
  "c < lineSize \<Longrightarrow> fst (GetCodepointNext (drop c line)) \<noteq> 0x0A \<Longrightarrow>
     glyph_cursors line lineSize c = c # glyph_cursors line lineSize (c + cursor_step (drop c line))"
  by (simp add: glyph_cursors.simps [of line lineSize c])

lemma glyph_cursors_end: "lineSize \<le> c \<Longrightarrow> glyph_cursors line lineSize c = []"
  by (simp add: glyph_cursors.simps [of line lineSize c])

lemma glyph_advance_nonneg:
  assumes "\<forall>i. 0 \<le> glyph_width fnt (le_scaleFactor env) i"
    and "0 \<le> style_int g DEFAULT TEXT_SPACING"
  shows "0 \<le> glyph_advance fnt g env line c"
  using assms by (simp add: glyph_advance_def)

text \<open>Once the ellipsis is drawn and the text offset is past the place where a glyph and the
  ellipsis fit, the rest of the line draws nothing.\<close>

lemma glyph_loop_overflowed:
  assumes wide: "rec_width (le_textBounds env) < of_int (le_textSizeX env)"
    and gw: "\<forall>i. 0 \<le> glyph_width fnt (le_scaleFactor env) i"
    and sp: "0 \<le> style_int g DEFAULT TEXT_SPACING"
    and mode: "gs_wrapMode st = TEXT_WRAP_NONE"
    and ov: "gs_textOverflow st"
    and t: "rec_width (le_textBounds env) - le_textBoundsWidthOffset env
              - of_int (le_ellipsisWidth env) < gs_textOffsetX st"
  shows "\<exists>st'. glyph_loop fnt g env line lineSize c st = Some st' \<and> gs_drawn st' = gs_drawn st"
  using mode ov t
proof (induction "lineSize - c" arbitrary: c st rule: less_induct)
  case less
  show ?case
  proof (cases "c < lineSize")
    case False
    then show ?thesis by (simp add: glyph_loop_end)
  next
    case True
    let ?c' = "c + cursor_step (drop c line)"
    let ?st = "st \<lparr> gs_textOffsetX := gs_textOffsetX st + glyph_advance fnt g env line c \<rparr>"
    show ?thesis
    proof (cases "fst (GetCodepointNext (drop c line)) = 0x0A")
      case lf: True
      then show ?thesis
        using True less.prems(1)
        by (simp add: glyph_loop.simps [of fnt g env line lineSize c st] wrap_measure_none Let_def)
    next
      case lf: False
      have "0 \<le> glyph_width fnt (le_scaleFactor env)
                   (GetGlyphIndex fnt (fst (GetCodepointNext (drop c line))))"
        using gw by blast
      then have step: "glyph_loop fnt g env line lineSize c st
                         = glyph_loop fnt g env line lineSize ?c' ?st"
        using less.prems
        by (simp add: glyph_loop_none_step [OF True less.prems(1) wide lf] Let_def)
      have "lineSize - ?c' < lineSize - c"
        using True cursor_step_pos [of "drop c line"] by arith
      moreover have "gs_wrapMode ?st = TEXT_WRAP_NONE" "gs_textOverflow ?st"
        using less.prems by simp_all
      moreover have "rec_width (le_textBounds env) - le_textBoundsWidthOffset env
                       - of_int (le_ellipsisWidth env) < gs_textOffsetX ?st"
        using less.prems(3) glyph_advance_nonneg [OF gw sp, of line c] by simp
      ultimately obtain st' where
        "glyph_loop fnt g env line lineSize ?c' ?st = Some st'" "gs_drawn st' = gs_drawn ?st"
        using less.hyps [of ?c' ?st] by blast
      then show ?thesis using step by simp
    qed
  qed
qed

text \<open>While no ellipsis is drawn: if the advances of the glyphs that are left bring the text
  offset past the place where the ellipsis still fits, the loop draws some of the glyphs,
  then the three dots, and nothing after them.\<close>

lemma glyph_loop_ellipsis:
  fixes k :: int and lim px y :: real
  assumes wide: "rec_width (le_textBounds env) < of_int (le_textSizeX env)"
    and gw: "\<forall>i. 0 \<le> glyph_width fnt (le_scaleFactor env) i"
    and sp: "0 \<le> style_int g DEFAULT TEXT_SPACING"
    and E: "le_ellipsisWidth env = 3 * k" "0 < k"
    and lim: "lim = rec_width (le_textBounds env) - le_textBoundsWidthOffset env
                      - of_int (le_ellipsisWidth env)"
    and px: "px = v2_x (le_textBoundsPosition env)"
    and mode: "gs_wrapMode st = TEXT_WRAP_NONE"
    and nov: "\<not> gs_textOverflow st"
    and y: "y = v2_y (le_textBoundsPosition env) + of_int (gs_textOffsetY st)"
    and c: "c < lineSize"
    and glyphs: "\<forall>i \<in> set (glyph_cursors line lineSize c).
                   fst (GetCodepointNext (drop i line)) \<notin> {0x20, 0x09, 0x0A}"
    and more: "lim + of_int (style_int g DEFAULT TEXT_SPACING)
                 < gs_textOffsetX st
                     + (\<Sum>i\<leftarrow>glyph_cursors line lineSize c. glyph_advance fnt g env line i)"
  shows "\<exists>st' ps t'.
           glyph_loop fnt g env line lineSize c st = Some st' \<and>
           gs_drawn st' = gs_drawn st
              @ map (\<lambda>(cp, x). DrawTextCodepoint cp \<lparr> v2_x = x, v2_y = y \<rparr>) ps
              @ map (\<lambda>j. DrawTextCodepoint 0x2E \<lparr> v2_x = px + t' + of_int j, v2_y = y \<rparr>)
                  [0, k, 2 * k] \<and>
           length ps < length (glyph_cursors line lineSize c) \<and>
           map fst ps = take (length ps)
                          (map (\<lambda>i. fst (GetCodepointNext (drop i line)))
                             (glyph_cursors line lineSize c)) \<and>
           (\<forall>x \<in> snd ` set ps. px + gs_textOffsetX st \<le> x \<and> x \<le> px + lim) \<and>
           gs_textOffsetX st \<le> t' \<and>
           (t' = gs_textOffsetX st \<or> t' \<le> lim + of_int (style_int g DEFAULT TEXT_SPACING))"
  using mode nov y c glyphs more
proof (induction "lineSize - c" arbitrary: c st rule: less_induct)
  case less
  let ?cp = "fst (GetCodepointNext (drop c line))"
  let ?gw = "glyph_width fnt (le_scaleFactor env) (GetGlyphIndex fnt ?cp)"
  let ?c' = "c + cursor_step (drop c line)"
  let ?t = "gs_textOffsetX st"
  let ?adv = "glyph_advance fnt g env line c"
  let ?S = "style_int g DEFAULT TEXT_SPACING"
  let ?cps = "\<lambda>c. map (\<lambda>i. fst (GetCodepointNext (drop i line))) (glyph_cursors line lineSize c)"
  note c = \<open>c < lineSize\<close>
  have mode: "gs_wrapMode st = TEXT_WRAP_NONE" and nov: "\<not> gs_textOverflow st"
    and y: "y = v2_y (le_textBoundsPosition env) + of_int (gs_textOffsetY st)"
    using less.prems by simp_all
  have cin: "c \<in> set (glyph_cursors line lineSize c)"
    using c by (simp add: glyph_cursors.simps [of line lineSize c])
  then have cp: "?cp \<noteq> 0x20" "?cp \<noteq> 0x09" "?cp \<noteq> 0x0A"
    using less.prems(5) by auto
  have cur: "glyph_cursors line lineSize c = c # glyph_cursors line lineSize ?c'"
    using c cp(3) by (rule glyph_cursors_step)
  have gw0: "0 \<le> ?gw" using gw by blast
  have adv: "?adv = ?gw + of_int ?S" by (simp add: glyph_advance_def)
  have dec: "lineSize - ?c' < lineSize - c"
    using c cursor_step_pos [of "drop c line"] by arith
  note step = glyph_loop_none_step [OF c mode wide cp(3), of fnt g, unfolded Let_def]
  show ?case
  proof (cases "?t \<le> rec_width (le_textBounds env) - ?gw - le_textBoundsWidthOffset env
                        - of_int (le_ellipsisWidth env)")
    case fit: True
    let ?st = "st \<lparr> gs_drawn := gs_drawn st @ [DrawTextCodepoint ?cp
                        \<lparr> v2_x = v2_x (le_textBoundsPosition env) + ?t,
                           v2_y = v2_y (le_textBoundsPosition env) + of_int (gs_textOffsetY st) \<rparr>],
                     gs_textOffsetX := ?t + ?adv \<rparr>"
    have loop: "glyph_loop fnt g env line lineSize c st = glyph_loop fnt g env line lineSize ?c' ?st"
      using fit cp by (simp add: step)
    have t1: "?t + ?adv \<le> lim + of_int ?S" using fit by (simp add: lim adv)
    have sum: "lim + of_int ?S
                 < gs_textOffsetX ?st
                     + (\<Sum>i\<leftarrow>glyph_cursors line lineSize ?c'. glyph_advance fnt g env line i)"
      using less.prems(6) by (simp add: cur add.assoc)
    have c': "?c' < lineSize"
    proof (rule ccontr)
      assume "\<not> ?c' < lineSize"
      then have "glyph_cursors line lineSize ?c' = []" by (simp add: glyph_cursors_end)
      with sum t1 show False by simp
    qed
    have "\<exists>st' ps t'.
           glyph_loop fnt g env line lineSize ?c' ?st = Some st' \<and>
           gs_drawn st' = gs_drawn ?st
              @ map (\<lambda>(cp, x). DrawTextCodepoint cp \<lparr> v2_x = x, v2_y = y \<rparr>) ps
              @ map (\<lambda>j. DrawTextCodepoint 0x2E \<lparr> v2_x = px + t' + of_int j, v2_y = y \<rparr>)
                  [0, k, 2 * k] \<and>
           length ps < length (glyph_cursors line lineSize ?c') \<and>
           map fst ps = take (length ps) (?cps ?c') \<and>
           (\<forall>x \<in> snd ` set ps. px + gs_textOffsetX ?st \<le> x \<and> x \<le> px + lim) \<and>
           gs_textOffsetX ?st \<le> t' \<and>
           (t' = gs_textOffsetX ?st \<or> t' \<le> lim + of_int ?S)"
    proof (rule less.hyps [OF dec])
      show "gs_wrapMode ?st = TEXT_WRAP_NONE" using mode by simp
      show "\<not> gs_textOverflow ?st" using nov by simp
      show "y = v2_y (le_textBoundsPosition env) + of_int (gs_textOffsetY ?st)" using y by simp
      show "?c' < lineSize" by (rule c')
      show "\<forall>i \<in> set (glyph_cursors line lineSize ?c').
              fst (GetCodepointNext (drop i line)) \<notin> {0x20, 0x09, 0x0A}"
        using less.prems(5) by (simp add: cur)
      show "lim + of_int ?S
              < gs_textOffsetX ?st
                  + (\<Sum>i\<leftarrow>glyph_cursors line lineSize ?c'. glyph_advance fnt g env line i)"
        by (rule sum)
    qed
    then obtain st' ps t' where
      r: "glyph_loop fnt g env line lineSize ?c' ?st = Some st'"
      and d: "gs_drawn st' = gs_drawn ?st
              @ map (\<lambda>(cp, x). DrawTextCodepoint cp \<lparr> v2_x = x, v2_y = y \<rparr>) ps
              @ map (\<lambda>j. DrawTextCodepoint 0x2E \<lparr> v2_x = px + t' + of_int j, v2_y = y \<rparr>)
                  [0, k, 2 * k]"
      and l: "length ps < length (glyph_cursors line lineSize ?c')"
      and m: "map fst ps = take (length ps) (?cps ?c')"
      and b: "\<forall>x \<in> snd ` set ps. px + gs_textOffsetX ?st \<le> x \<and> x \<le> px + lim"
      and t: "gs_textOffsetX ?st \<le> t'"
      and t': "t' = gs_textOffsetX ?st \<or> t' \<le> lim + of_int ?S"
      by blast
    let ?ps = "(?cp, px + ?t) # ps"
    have adv0: "0 \<le> ?adv" using gw0 sp by (simp add: adv)
    have "glyph_loop fnt g env line lineSize c st = Some st'" using loop r by simp
    moreover have "gs_drawn st' = gs_drawn st
              @ map (\<lambda>(cp, x). DrawTextCodepoint cp \<lparr> v2_x = x, v2_y = y \<rparr>) ?ps
              @ map (\<lambda>j. DrawTextCodepoint 0x2E \<lparr> v2_x = px + t' + of_int j, v2_y = y \<rparr>)
                  [0, k, 2 * k]"
      using d by (simp add: px y)
    moreover have "length ?ps < length (glyph_cursors line lineSize c)" using l by (simp add: cur)
    moreover have "map fst ?ps = take (length ?ps) (?cps c)" using m by (simp add: cur)
    moreover have "\<forall>x \<in> snd ` set ?ps. px + ?t \<le> x \<and> x \<le> px + lim"
    proof -
      have "?t \<le> lim" using fit gw0 by (simp add: lim)
      moreover have "\<forall>x \<in> snd ` set ps. px + ?t \<le> x \<and> x \<le> px + lim"
        using b adv0 by fastforce
      ultimately show ?thesis by simp
    qed
    moreover have "?t \<le> t'" using t adv0 by simp
    moreover have "t' = ?t \<or> t' \<le> lim + of_int ?S" using t' t1 by auto
    ultimately show ?thesis by blast
  next
    case nofit: False
    let ?st = "st \<lparr> gs_textOverflow := True,
                     gs_drawn := gs_drawn st @
                       map (\<lambda>j. DrawTextCodepoint 0x2E
                              \<lparr> v2_x = v2_x (le_textBoundsPosition env) + ?t + of_int j,
                                 v2_y = v2_y (le_textBoundsPosition env)
                                          + of_int (gs_textOffsetY st) \<rparr>) [0, k, 2 * k],
                     gs_textOffsetX := ?t + ?adv \<rparr>"
    have loop: "glyph_loop fnt g env line lineSize c st = glyph_loop fnt g env line lineSize ?c' ?st"
      using nofit cp nov by (simp add: step E ellipsis_loop_3)
    have "\<exists>st'. glyph_loop fnt g env line lineSize ?c' ?st = Some st' \<and>
                 gs_drawn st' = gs_drawn ?st"
    proof (rule glyph_loop_overflowed [OF wide gw sp])
      show "gs_wrapMode ?st = TEXT_WRAP_NONE" using mode by simp
      show "gs_textOverflow ?st" by simp
      show "rec_width (le_textBounds env) - le_textBoundsWidthOffset env
              - of_int (le_ellipsisWidth env) < gs_textOffsetX ?st"
        using nofit sp by (simp add: adv)
    qed
    then obtain st' where
      r: "glyph_loop fnt g env line lineSize ?c' ?st = Some st'" "gs_drawn st' = gs_drawn ?st"
      by blast
    have "glyph_loop fnt g env line lineSize c st = Some st'" using loop r by simp
    moreover have "gs_drawn st' = gs_drawn st
              @ map (\<lambda>(cp, x). DrawTextCodepoint cp \<lparr> v2_x = x, v2_y = y \<rparr>) []
              @ map (\<lambda>j. DrawTextCodepoint 0x2E \<lparr> v2_x = px + ?t + of_int j, v2_y = y \<rparr>)
                  [0, k, 2 * k]"
      using r(2) by (simp add: px y)
    moreover have "length ([] :: (int \<times> real) list) < length (glyph_cursors line lineSize c)"
      by (simp add: cur)
    moreover have "map fst ([] :: (int \<times> real) list) = take (length ([] :: (int \<times> real) list)) (?cps c)"
      by simp
    moreover have "\<forall>x \<in> snd ` set ([] :: (int \<times> real) list). px + ?t \<le> x \<and> x \<le> px + lim"
      by simp
    ultimately show ?thesis by blast
  qed
qed

text \<open>Where \<^verbatim>\<open>GetCodepointNext\<close> reads a sequence of several bytes, the bytes after the first
  are continuation bytes, and the drawing loop steps over a continuation byte one byte at a
  time.\<close>

lemma continuation_length: "\<forall>b::byte. utf8_continuation b \<longrightarrow> utf8_length b = 0"
  unfolding byte_all by code_simp

lemma GetCodepointNext_continuation:
  assumes "utf8_continuation (byte_at ptr 0)"
  shows "GetCodepointNext ptr = (0x3f, 1)"
  using assms continuation_length
  by (simp add: GetCodepointNext_utf8 utf8_well_formed_def)

lemma GetCodepointNext_tail:
  assumes "1 \<le> m" and "m < snd (GetCodepointNext ptr)"
  shows "utf8_continuation (byte_at ptr m)"
proof -
  have wf: "utf8_well_formed ptr" and m: "m < utf8_length (byte_at ptr 0)"
    using assms by (auto simp: GetCodepointNext_utf8 split: if_splits)
  then have "list_all (\<lambda>k. utf8_continuation (byte_at ptr k)) [1..<utf8_length (byte_at ptr 0)]"
    by (simp add: utf8_well_formed_def Let_def)
  then show ?thesis using assms(1) m by (simp add: list_all_iff)
qed

lemma byte_at_drop: "byte_at (drop i line) m = byte_at line (i + m)"
  by (simp add: byte_at_def) arith

text \<open>The sum of the advances of the glyphs that the drawing loop visits from a cursor.\<close>

lemma advance_sum_step:
  assumes "c < lineSize" and "fst (GetCodepointNext (drop c line)) \<noteq> 0x0A"
  shows "(\<Sum>i\<leftarrow>glyph_cursors line lineSize c. glyph_advance fnt g env line i)
           = glyph_advance fnt g env line c
             + (\<Sum>i\<leftarrow>glyph_cursors line lineSize (c + cursor_step (drop c line)).
                  glyph_advance fnt g env line i)"
  by (simp add: glyph_cursors_step [OF assms])

lemma advance_sum_nonneg:
  assumes "\<forall>i. 0 \<le> glyph_width fnt (le_scaleFactor env) i"
    and "0 \<le> style_int g DEFAULT TEXT_SPACING"
  shows "0 \<le> (\<Sum>i\<leftarrow>glyph_cursors line lineSize c. glyph_advance fnt g env line i)"
  by (rule sum_list_nonneg) (auto simp: glyph_advance_nonneg [OF assms])

lemma advance_sum_continuation:
  assumes gw: "\<forall>i. 0 \<le> glyph_width fnt (le_scaleFactor env) i"
    and sp: "0 \<le> style_int g DEFAULT TEXT_SPACING"
    and cont: "utf8_continuation (byte_at line j)"
  shows "(\<Sum>i\<leftarrow>glyph_cursors line lineSize (j + 1). glyph_advance fnt g env line i)
           \<le> (\<Sum>i\<leftarrow>glyph_cursors line lineSize j. glyph_advance fnt g env line i)"
proof (cases "j < lineSize")
  case False
  then show ?thesis by (simp add: glyph_cursors_end)
next
  case True
  have "utf8_continuation (byte_at (drop j line) 0)" using cont by (simp add: byte_at_drop)
  then have g: "GetCodepointNext (drop j line) = (0x3f, 1)"
    by (rule GetCodepointNext_continuation)
  then have "cursor_step (drop j line) = 1" by (simp add: cursor_step_def)
  moreover have "fst (GetCodepointNext (drop j line)) \<noteq> 0x0A" using g by simp
  ultimately show ?thesis
    using advance_sum_step [OF True, where fnt = fnt and g = g and env = env] glyph_advance_nonneg [OF gw sp, of line j]
    by simp
qed

lemma advance_sum_skip:
  assumes gw: "\<forall>i. 0 \<le> glyph_width fnt (le_scaleFactor env) i"
    and sp: "0 \<le> style_int g DEFAULT TEXT_SPACING"
    and c: "c < lineSize" and lf: "fst (GetCodepointNext (drop c line)) \<noteq> 0x0A"
  shows "glyph_advance fnt g env line c
           + (\<Sum>i\<leftarrow>glyph_cursors line lineSize (c + snd (GetCodepointNext (drop c line))).
                glyph_advance fnt g env line i)
         \<le> (\<Sum>i\<leftarrow>glyph_cursors line lineSize c. glyph_advance fnt g env line i)"
proof (cases "cursor_step (drop c line) = snd (GetCodepointNext (drop c line))")
  case True
  then show ?thesis using advance_sum_step [OF c lf, where fnt = fnt and g = g and env = env] by simp
next
  case False
  let ?n = "snd (GetCodepointNext (drop c line))"
  let ?R = "\<lambda>j. \<Sum>i\<leftarrow>glyph_cursors line lineSize j. glyph_advance fnt g env line i"
  have one: "cursor_step (drop c line) = 1"
    using False by (simp add: cursor_step_def case_prod_beta split: if_splits)
  have down: "?R (c + (m + 1)) \<le> ?R (c + m)" if "1 \<le> m" "m < ?n" for m
  proof -
    have "utf8_continuation (byte_at line (c + m))"
      using GetCodepointNext_tail [OF that] by (simp add: byte_at_drop)
    from advance_sum_continuation [OF gw sp this, of lineSize]
    show ?thesis by (simp add: add.assoc)
  qed
  have n: "?n = 2 \<or> ?n = 3 \<or> ?n = 4"
    using False one GetCodepointNext_size [of "drop c line"] by arith
  have "?R (c + ?n) \<le> ?R (c + 1)"
  proof -
    consider "?n = 2" | "?n = 3" | "?n = 4" using n by blast
    then show ?thesis
    proof cases
      case 1
      then show ?thesis using down [of 1] by simp
    next
      case 2
      then show ?thesis using down [of 1] down [of 2] by simp
    next
      case 3
      then show ?thesis using down [of 1] down [of 2] down [of 3] by simp
    qed
  qed
  then show ?thesis using advance_sum_step [OF c lf, where fnt = fnt and g = g and env = env] one by simp
qed

text \<open>The measured width is at most the sum of the advances of the glyphs that the drawing
  loop visits.\<close>

lemma measure_loop_le:
  assumes gw: "\<forall>i. 0 \<le> glyph_width fnt (le_scaleFactor env) i"
    and sp: "0 \<le> style_int g DEFAULT TEXT_SPACING"
    and sz: "sz \<le> lineSize"
    and lf: "\<forall>i < lineSize. fst (GetCodepointNext (drop i line)) \<noteq> 0x0A"
  shows "measure_loop fnt (le_scaleFactor env) (style_int g DEFAULT TEXT_SPACING) line sz c x
           \<le> x + (\<Sum>i\<leftarrow>glyph_cursors line lineSize c. glyph_advance fnt g env line i)"
proof (induction "lineSize - c" arbitrary: c x rule: less_induct)
  case less
  show ?case
  proof (cases "c < sz")
    case False
    then show ?thesis
      using advance_sum_nonneg [OF gw sp, of line lineSize c]
      by (simp add: measure_loop.simps [of fnt "le_scaleFactor env" _ line sz c x])
  next
    case True
    let ?c' = "c + snd (GetCodepointNext (drop c line))"
    have c: "c < lineSize" using True sz by simp
    have m: "measure_loop fnt (le_scaleFactor env) (style_int g DEFAULT TEXT_SPACING) line sz c x
               = measure_loop fnt (le_scaleFactor env) (style_int g DEFAULT TEXT_SPACING) line sz ?c'
                   (x + glyph_advance fnt g env line c)"
      using True
      by (subst measure_loop.simps) (simp add: Let_def case_prod_beta glyph_advance_def)
    have dec: "lineSize - ?c' < lineSize - c"
      using c GetCodepointNext_size [of "drop c line"] by arith
    have "measure_loop fnt (le_scaleFactor env) (style_int g DEFAULT TEXT_SPACING) line sz ?c'
            (x + glyph_advance fnt g env line c)
          \<le> (x + glyph_advance fnt g env line c)
              + (\<Sum>i\<leftarrow>glyph_cursors line lineSize ?c'. glyph_advance fnt g env line i)"
      by (rule less.hyps [OF dec])
    moreover have lfc: "fst (GetCodepointNext (drop c line)) \<noteq> 0x0A" using lf c by simp
    note advance_sum_skip [OF gw sp c lfc]
    ultimately show ?thesis unfolding m by linarith
  qed
qed

lemma GetTextWidth_plain:
  assumes "byte_at line 0 \<noteq> 0" and "byte_at line 0 \<noteq> 0x23"
    and "0 < texture_id fnt" and "baseSize fnt \<noteq> 0"
  shows "GetTextWidth fnt g line =
           Some (trunc_int (measure_loop fnt
                   (of_int (style_int g DEFAULT TEXT_SIZE) / of_int (baseSize fnt))
                   (style_int g DEFAULT TEXT_SPACING) line
                   (length (takeWhile (\<lambda>b. b \<noteq> 0 \<and> b \<noteq> 0x0A) (take MAX_LINE_BUFFER_SIZE line)))
                   0 0))"
  using assms by (simp add: GetTextWidth_def Let_def)

lemma GetCodepointNext_dot: "GetCodepointNext (0x2E # bs) = (0x2E, 1)"
  by (simp add: GetCodepointNext_def byte_at_def Let_def)

text \<open>The ellipsis width is at least three text spacings.\<close>

lemma ellipsis_width_spacing:
  assumes gw: "\<forall>i. 0 \<le> glyph_width fnt (of_int (style_int g DEFAULT TEXT_SIZE)
                                          / of_int (baseSize fnt)) i"
    and "0 < texture_id fnt" and "baseSize fnt \<noteq> 0"
    and E: "GetTextWidth fnt g [0x2E, 0x2E, 0x2E] = Some ellipsisWidth"
  shows "3 * style_int g DEFAULT TEXT_SPACING \<le> ellipsisWidth"
proof -
  let ?s = "of_int (style_int g DEFAULT TEXT_SIZE) / of_int (baseSize fnt) :: real"
  let ?S = "style_int g DEFAULT TEXT_SPACING"
  let ?w = "glyph_width fnt ?s (GetGlyphIndex fnt 0x2E)"
  have m3: "measure_loop fnt ?s ?S [0x2E, 0x2E, 0x2E] (Suc (Suc (Suc 0))) (Suc (Suc (Suc 0))) x = x" for x
    by (subst measure_loop.simps) simp
  have m2: "measure_loop fnt ?s ?S [0x2E, 0x2E, 0x2E] (Suc (Suc (Suc 0))) (Suc (Suc 0)) x
              = x + (?w + of_int ?S)" for x
    by (subst measure_loop.simps) (simp add: GetCodepointNext_dot m3 Let_def)
  have m1: "measure_loop fnt ?s ?S [0x2E, 0x2E, 0x2E] (Suc (Suc (Suc 0))) (Suc 0) x
              = x + (?w + of_int ?S) + (?w + of_int ?S)" for x
    by (subst measure_loop.simps) (simp add: GetCodepointNext_dot m2 Let_def)
  have m0: "measure_loop fnt ?s ?S [0x2E, 0x2E, 0x2E] (Suc (Suc (Suc 0))) 0 0 = 3 * ?w + of_int (3 * ?S)"
    by (subst measure_loop.simps) (simp add: GetCodepointNext_dot m1 Let_def)
  have "ellipsisWidth = trunc_int (3 * ?w + of_int (3 * ?S))"
    using E assms(2,3) by (simp add: GetTextWidth_def Let_def byte_at_def m0)
  moreover have "trunc_int (of_int (3 * ?S)) \<le> trunc_int (3 * ?w + of_int (3 * ?S))"
    using gw by (intro trunc_int_mono) simp
  ultimately show ?thesis by (simp del: of_int_mult of_int_numeral)
qed

lemma GetTextLines_loop_single:
  assumes "\<forall>b \<in> set text. b \<noteq> 0x0A"
  shows "GetTextLines_loop text i lines = lines"
proof (induction "length (c_string text) - i" arbitrary: i rule: less_induct)
  case less
  show ?case
  proof (cases "i < length (c_string text) \<and> length lines < RAYGUI_MAX_TEXT_LINES")
    case False
    then show ?thesis by (subst GetTextLines_loop.simps) auto
  next
    case True
    have "length (c_string text) \<le> length text"
      by (simp add: c_string_def length_takeWhile_le)
    then have "byte_at text i \<in> set text" using True by (simp add: byte_at_def)
    then have "byte_at text i \<noteq> 0x0A" using assms by blast
    moreover have "length (c_string text) - (i + 1) < length (c_string text) - i"
      using True by arith
    then have "GetTextLines_loop text (i + 1) lines = lines"
      by (rule less.hyps)
    ultimately show ?thesis using True by (subst GetTextLines_loop.simps) simp
  qed
qed

lemma GetTextIcon_suffix: "\<exists>n. fst (GetTextIcon text) = drop n text"
proof (cases "fst (GetTextIcon text) = text")
  case True
  then have "fst (GetTextIcon text) = drop 0 text" by simp
  then show ?thesis by blast
next
  case False
  then show ?thesis
    by (auto simp: GetTextIcon_def Let_def split: if_splits prod.splits)
qed

lemma GuiDrawText_lines_single:
  "GuiDrawText_lines fnt guiIconScale g textBounds alignment totalHeight [line] acc =
     GuiDrawText_line fnt guiIconScale g textBounds alignment totalHeight line acc"
  by (cases "GuiDrawText_line fnt guiIconScale g textBounds alignment totalHeight line acc")
    simp_all

lemma line_position_wide:
  assumes "rec_width textBounds < of_int textSizeX" and "byte_at line 0 \<noteq> 0"
  shows "v2_x (line_position g textBounds alignment posOffsetY totalHeight textSizeX line)
           = of_int (trunc_int (rec_x textBounds))"
  using assms by (simp add: line_position_def Let_def)

lemma GuiDrawText_single_line:
  assumes single: "\<forall>b \<in> set text. b \<noteq> 0 \<and> b \<noteq> 0x0A \<and> b \<noteq> 0x0D"
    and icon: "GetTextIcon text = (line, iconId)"
    and line: "line \<noteq> []"
    and tw: "GetTextWidth fnt (style_loaded g0) line = Some textWidth"
    and E: "GetTextWidth fnt (style_loaded g0) [0x2E, 0x2E, 0x2E] = Some ellipsisWidth"
    and base: "baseSize fnt \<noteq> 0"
    and off: "off = (if 0 \<le> iconId then RAYGUI_ICON_SIZE * int guiIconScale + ICON_TEXT_PADDING
                     else 0)"
    and wide: "rec_width textBounds < of_int (textWidth + off)"
  shows "\<exists>y.
           GuiDrawText fnt guiIconScale text textBounds alignment g0 =
             map_option gs_drawn
               (glyph_loop fnt (style_loaded g0)
                  \<lparr> le_textBounds = textBounds,
                     le_textBoundsPosition =
                       \<lparr> v2_x = of_int (trunc_int (rec_x textBounds)) + of_int off, v2_y = y \<rparr>,
                     le_textBoundsWidthOffset = of_int off,
                     le_textSizeX = textWidth + off,
                     le_ellipsisWidth = ellipsisWidth,
                     le_scaleFactor = of_int (style_int (style_loaded g0) DEFAULT TEXT_SIZE)
                                        / of_int (baseSize fnt) \<rparr>
                  line (length line) 0
                  \<lparr> gs_wrapMode = style_int (style_loaded g0) DEFAULT TEXT_WRAP_MODE,
                     gs_lastSpaceIndex = 0, gs_tempWrapCharMode = False, gs_textOffsetY = 0,
                     gs_textOffsetX = 0, gs_textOverflow = False,
                     gs_drawn = (if 0 \<le> iconId
                                 then [GuiDrawIcon iconId (trunc_int (rec_x textBounds))
                                         (icon_position_y textBounds guiIconScale)
                                         (int guiIconScale)]
                                 else []) \<rparr>)"
proof -
  obtain n where n: "line = drop n text"
    using GetTextIcon_suffix [of "text"] icon by auto
  then have sub: "set line \<subseteq> set text" by (simp add: set_drop_subset)
  have text0: "byte_at text 0 \<noteq> 0"
    using line n single by (cases "text") (auto simp: byte_at_def)
  have line0: "byte_at line 0 \<noteq> 0"
    using line sub single by (cases line) (auto simp: byte_at_def)
  have lines: "GetTextLines text = [text]"
    using single by (simp add: GetTextLines_def GetTextLines_loop_single)
  have lineSize: "length (takeWhile (\<lambda>b. b \<noteq> 0 \<and> b \<noteq> 0x0A \<and> b \<noteq> 0x0D) line) = length line"
    using sub single by (subst takeWhile_eq_all_conv [THEN iffD2]) auto
  define g where "g = style_loaded g0"
  define totalHeight :: real
    where "totalHeight = of_int (int (length [text]) * style_int g DEFAULT TEXT_SIZE
                   + c_div ((int (length [text]) - 1) * style_int g DEFAULT TEXT_SIZE) 2)"
  define position
    where "position = line_position g textBounds alignment 0 totalHeight (textWidth + off) line"
  have px: "v2_x position = of_int (trunc_int (rec_x textBounds))"
    unfolding position_def using wide line0 by (rule line_position_wide)
  have pos: "position = \<lparr> v2_x = of_int (trunc_int (rec_x textBounds)), v2_y = v2_y position \<rparr>"
    using px by (cases position) simp
  have sizeX: "(if 0 \<le> iconId
                then textWidth + RAYGUI_ICON_SIZE * int guiIconScale
                       + (if byte_at line 0 \<noteq> 0 then ICON_TEXT_PADDING else 0)
                else textWidth) = textWidth + off"
    using line0 by (simp add: off)
  have "GuiDrawText fnt guiIconScale text textBounds alignment g0 =
             map_option gs_drawn
               (glyph_loop fnt (style_loaded g0)
                  \<lparr> le_textBounds = textBounds,
                     le_textBoundsPosition =
                       \<lparr> v2_x = of_int (trunc_int (rec_x textBounds)) + of_int off,
                          v2_y = v2_y position \<rparr>,
                     le_textBoundsWidthOffset = of_int off,
                     le_textSizeX = textWidth + off,
                     le_ellipsisWidth = ellipsisWidth,
                     le_scaleFactor = of_int (style_int (style_loaded g0) DEFAULT TEXT_SIZE)
                                        / of_int (baseSize fnt) \<rparr>
                  line (length line) 0
                  \<lparr> gs_wrapMode = style_int (style_loaded g0) DEFAULT TEXT_WRAP_MODE,
                     gs_lastSpaceIndex = 0, gs_tempWrapCharMode = False, gs_textOffsetY = 0,
                     gs_textOffsetX = 0, gs_textOverflow = False,
                     gs_drawn = (if 0 \<le> iconId
                                 then [GuiDrawIcon iconId (trunc_int (rec_x textBounds))
                                         (icon_position_y textBounds guiIconScale)
                                         (int guiIconScale)]
                                 else []) \<rparr>)"
    unfolding GuiDrawText_def lines Let_def GuiDrawText_lines_single GuiDrawText_line_def
      icon prod.case tw E Option.bind.simps sizeX lineSize
      position_def [symmetric, unfolded totalHeight_def g_def]
    apply (subst (1 2 3) pos)
    apply (cases "0 \<le> iconId")
     apply (simp_all add: text0 base off option.map_comp comp_def px)
    done
  then show ?thesis by blast
qed

lemma glyph_width_nonneg:
  assumes "0 \<le> s" and "\<forall>i. 0 \<le> glyph_advanceX fnt i" and "\<forall>i. 0 \<le> recs_width fnt i"
  shows "0 \<le> glyph_width fnt s i"
  using assms by (simp add: glyph_width_def)

text \<open>Claim C5 (ellipsis without wrapping). Take a text of one line (no NUL, line feed or
  carriage return) whose part after the icon marker is not empty, does not begin with
  \<^verbatim>\<open>#\<close>, and at no byte decodes to a space, a tab or a line feed; a font
  with a texture, a positive base size and glyph widths that are not negative; a style with
  wrap mode \<^verbatim>\<open>TEXT_WRAP_NONE\<close> and a text size and spacing that are not negative; and an
  ellipsis width that is a positive multiple of 3, say \<open>3 * k\<close>. If the measured width, with
  the icon and its padding, exceeds the width of the bounds, then \<^verbatim>\<open>GuiDrawText\<close> returns and
  draws: the icon when there is one; then the first glyphs of the text, fewer than all of them,
  each at most at the left edge plus the bounds width minus the ellipsis width; then exactly
  three dots, \<open>k\<close> apart, and nothing after them. When the bounds are at least as wide as the
  icon part and the ellipsis together, no dot is placed past the left edge (at a whole pixel)
  plus the bounds width.\<close>

theorem none_wrap_ellipsis:
  fixes k :: int and off :: int
  assumes wrap: "style_int (style_loaded g0) DEFAULT TEXT_WRAP_MODE = TEXT_WRAP_NONE"
    and sp: "0 \<le> style_int (style_loaded g0) DEFAULT TEXT_SPACING"
    and ts: "0 \<le> style_int (style_loaded g0) DEFAULT TEXT_SIZE"
    and tex: "0 < texture_id fnt" and base: "0 < baseSize fnt"
    and adv: "\<forall>i. 0 \<le> glyph_advanceX fnt i" and recs: "\<forall>i. 0 \<le> recs_width fnt i"
    and single: "\<forall>b \<in> set text. b \<noteq> 0 \<and> b \<noteq> 0x0A \<and> b \<noteq> 0x0D"
    and icon: "GetTextIcon text = (line, iconId)"
    and line: "line \<noteq> []" and hash: "byte_at line 0 \<noteq> 0x23"
    and glyphs: "\<forall>i < length line. fst (GetCodepointNext (drop i line)) \<notin> {0x20, 0x09, 0x0A}"
    and E: "GetTextWidth fnt (style_loaded g0) [0x2E, 0x2E, 0x2E] = Some (3 * k)" and k: "0 < k"
    and tw: "GetTextWidth fnt (style_loaded g0) line = Some textWidth"
    and off: "off = (if 0 \<le> iconId then RAYGUI_ICON_SIZE * int guiIconScale + ICON_TEXT_PADDING
                     else 0)"
    and wide: "rec_width textBounds < of_int (textWidth + off)"
  shows "\<exists>ps t y.
           GuiDrawText fnt guiIconScale text textBounds alignment g0 =
             Some ((if 0 \<le> iconId
                    then [GuiDrawIcon iconId (trunc_int (rec_x textBounds))
                            (icon_position_y textBounds guiIconScale) (int guiIconScale)]
                    else [])
                   @ map (\<lambda>(cp, x). DrawTextCodepoint cp \<lparr> v2_x = x, v2_y = y \<rparr>) ps
                   @ map (\<lambda>j. DrawTextCodepoint 0x2E
                            \<lparr> v2_x = of_int (trunc_int (rec_x textBounds)) + of_int off + t
                                      + of_int j, v2_y = y \<rparr>) [0, k, 2 * k]) \<and>
           length ps < length (glyph_cursors line (length line) 0) \<and>
           map fst ps = take (length ps)
                          (map (\<lambda>i. fst (GetCodepointNext (drop i line)))
                             (glyph_cursors line (length line) 0)) \<and>
           (\<forall>x \<in> snd ` set ps.
              of_int (trunc_int (rec_x textBounds)) + of_int off \<le> x \<and>
              x \<le> of_int (trunc_int (rec_x textBounds)) + rec_width textBounds - of_int (3 * k)) \<and>
           0 \<le> t \<and>
           (of_int off + of_int (3 * k) \<le> rec_width textBounds \<longrightarrow>
              of_int (trunc_int (rec_x textBounds)) + of_int off + t + of_int (2 * k)
                \<le> of_int (trunc_int (rec_x textBounds)) + rec_width textBounds)"
proof -
  define g where "g = style_loaded g0"
  define S where "S = style_int g DEFAULT TEXT_SPACING"
  define s :: real
    where "s = of_int (style_int g DEFAULT TEXT_SIZE) / of_int (baseSize fnt)"
  define X0 :: real where "X0 = of_int (trunc_int (rec_x textBounds)) + of_int off"
  define lim :: real where "lim = rec_width textBounds - of_int off - of_int (3 * k)"
  have base0: "baseSize fnt \<noteq> 0" using base by simp
  have s0: "0 \<le> s" using ts base by (simp add: s_def g_def)
  have gw: "\<forall>i. 0 \<le> glyph_width fnt s i"
    using glyph_width_nonneg [OF s0 adv recs] by blast
  obtain y where draw: "GuiDrawText fnt guiIconScale text textBounds alignment g0 =
             map_option gs_drawn
               (glyph_loop fnt (style_loaded g0)
                  \<lparr> le_textBounds = textBounds,
                     le_textBoundsPosition =
                       \<lparr> v2_x = of_int (trunc_int (rec_x textBounds)) + of_int off, v2_y = y \<rparr>,
                     le_textBoundsWidthOffset = of_int off,
                     le_textSizeX = textWidth + off,
                     le_ellipsisWidth = 3 * k,
                     le_scaleFactor = of_int (style_int (style_loaded g0) DEFAULT TEXT_SIZE)
                                        / of_int (baseSize fnt) \<rparr>
                  line (length line) 0
                  \<lparr> gs_wrapMode = style_int (style_loaded g0) DEFAULT TEXT_WRAP_MODE,
                     gs_lastSpaceIndex = 0, gs_tempWrapCharMode = False, gs_textOffsetY = 0,
                     gs_textOffsetX = 0, gs_textOverflow = False,
                     gs_drawn = (if 0 \<le> iconId
                                 then [GuiDrawIcon iconId (trunc_int (rec_x textBounds))
                                         (icon_position_y textBounds guiIconScale)
                                         (int guiIconScale)]
                                 else []) \<rparr>)"
    using GuiDrawText_single_line [OF single icon line tw E base0 off wide] by blast
  define env where "env =
     \<lparr> le_textBounds = textBounds,
        le_textBoundsPosition = \<lparr> v2_x = X0, v2_y = y \<rparr>,
        le_textBoundsWidthOffset = of_int off,
        le_textSizeX = textWidth + off,
        le_ellipsisWidth = 3 * k,
        le_scaleFactor = s \<rparr>"
  define st0 where "st0 =
     \<lparr> gs_wrapMode = TEXT_WRAP_NONE,
        gs_lastSpaceIndex = 0, gs_tempWrapCharMode = False, gs_textOffsetY = 0,
        gs_textOffsetX = 0, gs_textOverflow = False,
        gs_drawn = (if 0 \<le> iconId
                    then [GuiDrawIcon iconId (trunc_int (rec_x textBounds))
                            (icon_position_y textBounds guiIconScale) (int guiIconScale)]
                    else []) \<rparr>"
  have draw': "GuiDrawText fnt guiIconScale text textBounds alignment g0 =
                 map_option gs_drawn (glyph_loop fnt g env line (length line) 0 st0)"
    unfolding draw env_def st0_def X0_def s_def g_def wrap ..
  have gw': "\<forall>i. 0 \<le> glyph_width fnt (le_scaleFactor env) i"
    using gw by (simp add: env_def)
  have sp': "0 \<le> style_int g DEFAULT TEXT_SPACING" using sp by (simp add: g_def)
  have kS: "S \<le> k"
    using ellipsis_width_spacing [OF gw [unfolded s_def g_def] tex base0 E]
    by (simp add: S_def g_def)
  let ?R = "\<Sum>i\<leftarrow>glyph_cursors line (length line) 0. glyph_advance fnt g env line i"
  define sz where "sz = length (takeWhile (\<lambda>b. b \<noteq> 0 \<and> b \<noteq> 0x0A)
                                   (take MAX_LINE_BUFFER_SIZE line))"
  have sz: "sz \<le> length line"
    unfolding sz_def
    by (rule order_trans [OF length_takeWhile_le]) simp
  obtain n where "line = drop n text"
    using GetTextIcon_suffix [of "text"] icon by auto
  then have "set line \<subseteq> set text" by (simp add: set_drop_subset)
  then have line0: "byte_at line 0 \<noteq> 0"
    using line single by (cases line) (auto simp: byte_at_def)
  have "textWidth = trunc_int (measure_loop fnt s S line sz 0 0)"
    using tw GetTextWidth_plain [OF line0 hash tex base0, of "style_loaded g0"]
    by (simp add: s_def S_def g_def sz_def)
  moreover have "measure_loop fnt (le_scaleFactor env) (style_int g DEFAULT TEXT_SPACING)
                   line sz 0 0 \<le> 0 + ?R"
    using glyphs by (intro measure_loop_le [OF gw' sp' sz]) simp
  moreover have R0: "0 \<le> ?R"
    by (rule sum_list_nonneg) (auto simp: glyph_advance_nonneg [OF gw' sp'])
  ultimately have "of_int textWidth \<le> ?R"
    using trunc_int_le_max [of "measure_loop fnt s S line sz 0 0"]
    by (simp add: env_def S_def)
  then have more: "lim + of_int (style_int g DEFAULT TEXT_SPACING)
                     < gs_textOffsetX st0 + ?R"
    using wide kS k by (simp add: lim_def st0_def S_def)
  have "\<exists>st' ps t'.
           glyph_loop fnt g env line (length line) 0 st0 = Some st' \<and>
           gs_drawn st' = gs_drawn st0
              @ map (\<lambda>(cp, x). DrawTextCodepoint cp \<lparr> v2_x = x, v2_y = y \<rparr>) ps
              @ map (\<lambda>j. DrawTextCodepoint 0x2E \<lparr> v2_x = X0 + t' + of_int j, v2_y = y \<rparr>)
                  [0, k, 2 * k] \<and>
           length ps < length (glyph_cursors line (length line) 0) \<and>
           map fst ps = take (length ps)
                          (map (\<lambda>i. fst (GetCodepointNext (drop i line)))
                             (glyph_cursors line (length line) 0)) \<and>
           (\<forall>x \<in> snd ` set ps. X0 + gs_textOffsetX st0 \<le> x \<and> x \<le> X0 + lim) \<and>
           gs_textOffsetX st0 \<le> t' \<and>
           (t' = gs_textOffsetX st0 \<or> t' \<le> lim + of_int (style_int g DEFAULT TEXT_SPACING))"
  proof (rule glyph_loop_ellipsis [OF _ gw' sp'])
    show "rec_width (le_textBounds env) < of_int (le_textSizeX env)"
      using wide by (simp add: env_def)
    show "le_ellipsisWidth env = 3 * k" by (simp add: env_def)
    show "0 < k" by (rule k)
    show "lim = rec_width (le_textBounds env) - le_textBoundsWidthOffset env
                  - of_int (le_ellipsisWidth env)"
      by (simp add: lim_def env_def)
    show "X0 = v2_x (le_textBoundsPosition env)" by (simp add: env_def)
    show "gs_wrapMode st0 = TEXT_WRAP_NONE" by (simp add: st0_def)
    show "\<not> gs_textOverflow st0" by (simp add: st0_def)
    show "y = v2_y (le_textBoundsPosition env) + of_int (gs_textOffsetY st0)"
      by (simp add: env_def st0_def)
    show "0 < length line" using line by simp
    show "\<forall>i \<in> set (glyph_cursors line (length line) 0).
            fst (GetCodepointNext (drop i line)) \<notin> {0x20, 0x09, 0x0A}"
      using glyphs glyph_cursors_bounds [of line "length line" 0] by blast
    show "lim + of_int (style_int g DEFAULT TEXT_SPACING) < gs_textOffsetX st0 + ?R"
      by (rule more)
  qed
  then obtain st' ps t where
    r: "glyph_loop fnt g env line (length line) 0 st0 = Some st'"
    and d: "gs_drawn st' = gs_drawn st0
              @ map (\<lambda>(cp, x). DrawTextCodepoint cp \<lparr> v2_x = x, v2_y = y \<rparr>) ps
              @ map (\<lambda>j. DrawTextCodepoint 0x2E \<lparr> v2_x = X0 + t + of_int j, v2_y = y \<rparr>)
                  [0, k, 2 * k]"
    and l: "length ps < length (glyph_cursors line (length line) 0)"
    and m: "map fst ps = take (length ps)
                          (map (\<lambda>i. fst (GetCodepointNext (drop i line)))
                             (glyph_cursors line (length line) 0))"
    and b: "\<forall>x \<in> snd ` set ps. X0 + gs_textOffsetX st0 \<le> x \<and> x \<le> X0 + lim"
    and t0: "gs_textOffsetX st0 \<le> t"
    and t1: "t = gs_textOffsetX st0 \<or> t \<le> lim + of_int (style_int g DEFAULT TEXT_SPACING)"
    by blast
  have "GuiDrawText fnt guiIconScale text textBounds alignment g0 =
          Some ((if 0 \<le> iconId
                 then [GuiDrawIcon iconId (trunc_int (rec_x textBounds))
                         (icon_position_y textBounds guiIconScale) (int guiIconScale)]
                 else [])
                @ map (\<lambda>(cp, x). DrawTextCodepoint cp \<lparr> v2_x = x, v2_y = y \<rparr>) ps
                @ map (\<lambda>j. DrawTextCodepoint 0x2E
                         \<lparr> v2_x = of_int (trunc_int (rec_x textBounds)) + of_int off + t
                                   + of_int j, v2_y = y \<rparr>) [0, k, 2 * k])"
    unfolding draw' r using d by (simp add: st0_def X0_def)
  moreover have "\<forall>x \<in> snd ` set ps.
              of_int (trunc_int (rec_x textBounds)) + of_int off \<le> x \<and>
              x \<le> of_int (trunc_int (rec_x textBounds)) + rec_width textBounds - of_int (3 * k)"
    using b by (auto simp: st0_def X0_def lim_def)
  moreover have "0 \<le> t" using t0 by (simp add: st0_def)
  moreover have "of_int off + of_int (3 * k) \<le> rec_width textBounds \<longrightarrow>
              of_int (trunc_int (rec_x textBounds)) + of_int off + t + of_int (2 * k)
                \<le> of_int (trunc_int (rec_x textBounds)) + rec_width textBounds"
  proof
    assume room: "of_int off + of_int (3 * k) \<le> rec_width textBounds"
    have "t \<le> lim + of_int S"
      using t1 room sp' by (auto simp: st0_def lim_def S_def)
    then show "of_int (trunc_int (rec_x textBounds)) + of_int off + t + of_int (2 * k)
                \<le> of_int (trunc_int (rec_x textBounds)) + rec_width textBounds"
      using kS by (simp add: lim_def)
  qed
  ultimately show ?thesis using l m by blast
qed

lemma default_text_style:
  "style_int (style_loaded gui_init) DEFAULT TEXT_WRAP_MODE = TEXT_WRAP_NONE"
  "style_int (style_loaded gui_init) DEFAULT TEXT_SPACING = 1"
  "style_int (style_loaded gui_init) DEFAULT TEXT_SIZE = 10"
  by code_simp+

lemma fixed_font_fields:
  "texture_id fixed_font = 1" "baseSize fixed_font = 10"
  "glyph_advanceX fixed_font i = 0" "recs_width fixed_font i = 5"
  by (simp_all add: fixed_font_def)

lemma text_abcdef_icon: "GetTextIcon text_abcdef = (text_abcdef, - 1)"
  by code_simp

lemma text_abcdef_cursors: "glyph_cursors text_abcdef (length text_abcdef) 0 = [0, 1, 2, 3, 4, 5]"
  by code_simp

lemma text_abcdef_codepoints:
  "fst (GetCodepointNext text_abcdef) = 0x61"
  "fst (GetCodepointNext (drop (Suc 0) text_abcdef)) = 0x62"
  "fst (GetCodepointNext (drop 2 text_abcdef)) = 0x63"
  "fst (GetCodepointNext (drop 3 text_abcdef)) = 0x64"
  "fst (GetCodepointNext (drop 4 text_abcdef)) = 0x65"
  "fst (GetCodepointNext (drop 5 text_abcdef)) = 0x66"
  by code_simp+

lemma text_abcdef_glyphs:
  "\<forall>i < length text_abcdef. fst (GetCodepointNext (drop i text_abcdef)) \<notin> {0x20, 0x09, 0x0A}"
proof -
  have "\<forall>i \<in> set [0..<length text_abcdef].
          fst (GetCodepointNext (drop i text_abcdef)) \<notin> {0x20, 0x09, 0x0A}"
    by code_simp
  then show ?thesis by simp
qed

lemma text_abcdef_width:
  "GetTextWidth fixed_font (style_loaded gui_init) [0x2E, 0x2E, 0x2E] = Some (3 * 6)"
  "GetTextWidth fixed_font (style_loaded gui_init) text_abcdef = Some 36"
  by code_simp+

theorem none_wrap_ellipsis_witness:
  "\<exists>ps t y.
     GuiDrawText fixed_font 1 text_abcdef bounds_30 TEXT_ALIGN_LEFT gui_init =
       Some (map (\<lambda>(cp, x). DrawTextCodepoint cp \<lparr> v2_x = x, v2_y = y \<rparr>) ps
             @ [DrawTextCodepoint 0x2E \<lparr> v2_x = t, v2_y = y \<rparr>,
                DrawTextCodepoint 0x2E \<lparr> v2_x = t + 6, v2_y = y \<rparr>,
                DrawTextCodepoint 0x2E \<lparr> v2_x = t + 12, v2_y = y \<rparr>]) \<and>
     length ps < 6 \<and>
     map fst ps = take (length ps) [0x61, 0x62, 0x63, 0x64, 0x65, 0x66] \<and>
     (\<forall>x \<in> snd ` set ps. 0 \<le> x \<and> x \<le> 12) \<and>
     0 \<le> t \<and> t + 12 \<le> 30"
proof -
  have "\<forall>b \<in> set text_abcdef. b \<noteq> 0 \<and> b \<noteq> 0x0A \<and> b \<noteq> 0x0D"
    by (simp add: text_abcdef_def)
  moreover have "text_abcdef \<noteq> []" "byte_at text_abcdef 0 \<noteq> 0x23"
    by (simp_all add: text_abcdef_def byte_at_def)
  moreover have "(0 :: int) = (if 0 \<le> (- 1 :: int) then RAYGUI_ICON_SIZE * int 1 + ICON_TEXT_PADDING
                               else 0)"
    by simp
  moreover have "rec_width bounds_30 < of_int (36 + 0)" by (simp add: bounds_30_def)
  moreover have "rec_x bounds_30 = 0" "rec_width bounds_30 = 30" by (simp_all add: bounds_30_def)
  moreover have six: "Suc (Suc (Suc (Suc (Suc (Suc 0))))) = 6" by simp
  ultimately show ?thesis
    using none_wrap_ellipsis [where ?g0.0 = gui_init and fnt = fixed_font and ?text = text_abcdef
        and line = text_abcdef and iconId = "- 1" and k = 6 and textWidth = 36 and off = 0
        and guiIconScale = 1 and textBounds = bounds_30 and alignment = TEXT_ALIGN_LEFT]
      text_abcdef_glyphs
    by (simp add: default_text_style fixed_font_fields text_abcdef_icon text_abcdef_cursors
        text_abcdef_codepoints text_abcdef_width trunc_int_def six)
qed

text \<open>A text whose measured width exceeds the bounds only by its blanks is drawn without an
  ellipsis: blanks are never tested against the bounds. After leading blanks the ellipsis
  starts where the first glyph would have been, here past the right edge at 30.\<close>

theorem none_wrap_blanks_counterexample:
  "GetTextWidth fixed_font (style_loaded gui_init) text_a_blanks = Some 36 \<and>
   rec_width bounds_30 = 30 \<and>
   GuiDrawText fixed_font 1 text_a_blanks bounds_30 TEXT_ALIGN_LEFT gui_init
     = Some [DrawTextCodepoint 0x61 \<lparr> v2_x = 0, v2_y = 5 \<rparr>] \<and>
   GetTextWidth fixed_font (style_loaded gui_init) text_blanks_ab = Some 48 \<and>
   GuiDrawText fixed_font 1 text_blanks_ab bounds_30 TEXT_ALIGN_LEFT gui_init
     = Some [DrawTextCodepoint 0x2E \<lparr> v2_x = 36, v2_y = 5 \<rparr>,
             DrawTextCodepoint 0x2E \<lparr> v2_x = 42, v2_y = 5 \<rparr>,
             DrawTextCodepoint 0x2E \<lparr> v2_x = 48, v2_y = 5 \<rparr>]"
  by code_simp

text \<open>With an ellipsis width that is not a multiple of 3 the loop draws more than three dots:
  a width of 7 gives the step 2 and four dots.\<close>

lemma ellipsis_loop_7: "ellipsis_loop 7 0 = Some [0, 2, 4, 6]"
  by code_simp

subsection \<open>Exclusive drag and the scroll panel\<close>


end
